theory Spec2Isabelle
  imports Complex_Main
begin

section \<open>Tensors\<close>

text \<open>
  The notebook works on NumPy and PyTorch arrays of shape \<open>(p, 1)\<close>, \<open>(n, 1)\<close>, \<open>(n, p)\<close>
  and \<open>(p, p)\<close>. A column \<open>(k, 1)\<close> is a list of its \<open>k\<close> entries, a matrix is the list
  of its rows. The numbers are binary floating-point numbers. Where rounding decides what
  the program does (which entries of the signal vector are set, and whether the sine error
  is a number or \<open>nan\<close>) it is part of the model; elsewhere the numbers are read as exact
  reals. An operation that leaves the reals (a division by zero, a square root of a negative
  number, both giving \<open>nan\<close> or \<open>inf\<close> without raising) returns \<open>None\<close>.
\<close>

type_synonym vec = "real list"
type_synonym mat = "real list list"

text \<open>
  The notebook only combines arrays whose shapes fit. On lists of different lengths the
  operations below stop at the shorter one; the theorems name the shapes they rely on.
\<close>

definition vmul :: "vec \<Rightarrow> vec \<Rightarrow> vec" where
  \<comment> \<open>\<open>a * b\<close> on two columns of one shape\<close>
  "vmul a b = map2 (*) a b"

definition vadd :: "vec \<Rightarrow> vec \<Rightarrow> vec" where
  "vadd a b = map2 (+) a b"

definition vsub :: "vec \<Rightarrow> vec \<Rightarrow> vec" where
  "vsub a b = map2 (-) a b"

definition vscale :: "vec \<Rightarrow> real \<Rightarrow> vec" where
  \<comment> \<open>\<open>a * c\<close> with a scalar \<open>c\<close>\<close>
  "vscale a c = map (\<lambda>x. x * c) a"

definition vdiv :: "vec \<Rightarrow> real \<Rightarrow> vec" where
  \<comment> \<open>\<open>a / c\<close> with a scalar \<open>c\<close>; callers test \<open>c\<close> first\<close>
  "vdiv a c = map (\<lambda>x. x / c) a"

definition torch_sum :: "vec \<Rightarrow> real" where
  "torch_sum a = sum_list a"

definition torch_norm :: "vec \<Rightarrow> real" where
  \<comment> \<open>\<open>torch.norm\<close>: the 2-norm of all entries\<close>
  "torch_norm a = sqrt (sum_list (map (\<lambda>x. x * x) a))"

definition norm_l1 :: "vec \<Rightarrow> real" where
  \<comment> \<open>\<open>torch.linalg.norm(a, ord=1)\<close> on a column\<close>
  "norm_l1 a = sum_list (map abs a)"

subsection \<open>Matrices\<close>

definition dot :: "vec \<Rightarrow> vec \<Rightarrow> real" where
  \<comment> \<open>a row times a column\<close>
  "dot a b = sum_list (map2 (*) a b)"

definition smul :: "real \<Rightarrow> vec \<Rightarrow> vec" where
  \<comment> \<open>\<open>c * a\<close> with a scalar \<open>c\<close>\<close>
  "smul c a = map (\<lambda>x. c * x) a"

definition outer :: "vec \<Rightarrow> vec \<Rightarrow> mat" where
  \<comment> \<open>\<open>a @ b.T\<close> for two columns: shape \<open>(k, 1) @ (1, m)\<close>\<close>
  "outer a b = map (\<lambda>x. map (\<lambda>y. x * y) b) a"

definition np_identity :: "nat \<Rightarrow> mat" where
  "np_identity p = map (\<lambda>i. map (\<lambda>j. if i = j then 1 else 0) [0..<p]) [0..<p]"

definition madd :: "mat \<Rightarrow> mat \<Rightarrow> mat" where
  "madd A B = map2 vadd A B"



definition mscale :: "real \<Rightarrow> mat \<Rightarrow> mat" where
  "mscale c A = map (smul c) A"

definition transpose_T :: "mat \<Rightarrow> mat" where
  \<comment> \<open>\<open>A.T\<close> of a rectangular matrix\<close>
  "transpose_T A =
     (case A of [] \<Rightarrow> [] | r # _ \<Rightarrow> map (\<lambda>j. map (\<lambda>row. row ! j) A) [0..<length r])"

definition matvec :: "mat \<Rightarrow> vec \<Rightarrow> vec" where
  \<comment> \<open>\<open>A @ x\<close> for a column \<open>x\<close>\<close>
  "matvec A x = map (\<lambda>row. dot row x) A"

definition matmul :: "mat \<Rightarrow> mat \<Rightarrow> mat" where
  "matmul A B = map (\<lambda>row. matvec (transpose_T B) row) A"


section \<open>Rounding\<close>

text \<open>
  IEEE 754 rounding to nearest, ties to even: \<open>round_float prec emin x\<close> is the number with
  a significand of \<open>prec\<close> bits and an exponent of at least \<open>emin\<close> that is nearest to \<open>x\<close>.
  \<open>binary64\<close> is Python's \<open>float\<close> and NumPy's and PyTorch's \<open>float64\<close>, \<open>binary32\<close> is
  PyTorch's \<open>float32\<close>. Beyond the largest number of a format the hardware gives \<open>inf\<close>;
  here the rounded value stays a (large) real.
\<close>

definition round_even :: "real \<Rightarrow> int" where
  "round_even q =
     (let f = \<lfloor>q\<rfloor>
      in if q - of_int f < 1 / 2 then f
         else if 1 / 2 < q - of_int f then f + 1
         else if even f then f else f + 1)"

definition round_float :: "nat \<Rightarrow> int \<Rightarrow> real \<Rightarrow> real" where
  "round_float prec emin x =
     (if x = 0 then 0
      else let e = max \<lfloor>log 2 \<bar>x\<bar>\<rfloor> emin;
               ulp = 2 powi (e - int prec + 1)
           in of_int (round_even (x / ulp)) * ulp)"

definition binary64 :: "real \<Rightarrow> real" where
  "binary64 x = round_float 53 (- 1022) x"

definition binary32 :: "real \<Rightarrow> real" where
  "binary32 x = round_float 24 (- 126) x"

section \<open>Data generator (cell 39514e94)\<close>

text \<open>
  \<^verbatim>\<open>
  sparse_vector = np.empty((p, 1))
  for i in range(p):
      if i < p * sparsity:
          sparse_vector[i][0] = 1
      else:
          sparse_vector[i][0] = 0
  \<close>
  \<open>np.empty\<close> hands out an uninitialised buffer: \<open>buf\<close> is whatever it held, of length
  \<open>p\<close>. The loop is a fold over \<open>range(p)\<close> writing one entry per round. In
  \<open>p * sparsity\<close> Python converts the integer \<open>p\<close> to a \<open>float\<close> and multiplies in
  binary64; \<open>sparsity\<close> is the value of a \<open>float\<close> (the literal \<open>0.3\<close> is
  \<open>binary64 (3 / 10)\<close>). The comparison of the integer \<open>i\<close> with that product is exact.
  (A \<open>p\<close> beyond the largest \<open>float\<close> would make the conversion raise; \<open>np.empty\<close> cannot
  allocate a buffer of that length, so the loop is never reached with one.)
\<close>

definition sparse_vector :: "vec \<Rightarrow> nat \<Rightarrow> real \<Rightarrow> vec" where
  "sparse_vector buf p sparsity =
     fold (\<lambda>i a. if real i < binary64 (binary64 (real p) * sparsity)
                 then a[i := 1] else a[i := 0]) [0..<p] buf"

text \<open>
  \<^verbatim>\<open>S = alpha * sparse_vector @ sparse_vector.T + beta * np.identity(p)\<close>
  (\<open>*\<close> and \<open>@\<close> bind alike and to the left), and \<^verbatim>\<open>X = Z @ S\<close>.
\<close>

definition cov_S :: "real \<Rightarrow> real \<Rightarrow> nat \<Rightarrow> vec \<Rightarrow> mat" where
  "cov_S alpha beta p sv = madd (outer (smul alpha sv) sv) (mscale beta (np_identity p))"

definition data_X :: "mat \<Rightarrow> mat \<Rightarrow> mat" where
  "data_X Z S = matmul Z S"

section \<open>Recovery metrics\<close>

text \<open>
  \<^verbatim>\<open>
  cosine_error = torch.sum(recovered * sparse_vector) / (torch.norm(recovered) * torch.norm(sparse_vector))
  sine_error = (1 - cosine_error ** 2) ** 0.5
  \<close>
  The same two lines stand in all five cells. \<open>recovered\<close> is a \<open>float32\<close> tensor,
  \<open>sparse_vector\<close> a \<open>float64\<close> tensor; the norm of \<open>recovered\<close> is rounded to
  \<open>float32\<close>, everything else to \<open>float64\<close>. The rounding decides whether the cosine
  comes out above 1, and then \<open>** 0.5\<close> of a negative number is \<open>nan\<close>. How PyTorch rounds
  inside a reduction (the order of the additions, the precision of the accumulator) is not
  fixed by the notebook, so the three reductions and the rounding of one scalar operation
  are the fields of an arithmetic \<open>A\<close>, which the metric takes as an argument.

  The division has no test in front of it: with a zero denominator the quotient is \<open>nan\<close>
  or \<open>inf\<close>, and the sine error is \<open>nan\<close>, here \<open>None\<close>.
\<close>

record arith =
  fl :: "real \<Rightarrow> real"
  norm_recovered :: "vec \<Rightarrow> real"
  norm_signal :: "vec \<Rightarrow> real"
  sum_prod :: "vec \<Rightarrow> vec \<Rightarrow> real"

definition cosine_denominator :: "arith \<Rightarrow> vec \<Rightarrow> vec \<Rightarrow> real" where
  "cosine_denominator A recovered sv = fl A (norm_recovered A recovered * norm_signal A sv)"

definition cosine_error :: "arith \<Rightarrow> vec \<Rightarrow> vec \<Rightarrow> real option" where
  "cosine_error A recovered sv =
     (if cosine_denominator A recovered sv = 0 then None
      else Some (fl A (sum_prod A recovered sv / cosine_denominator A recovered sv)))"

definition sine_error :: "arith \<Rightarrow> vec \<Rightarrow> vec \<Rightarrow> real option" where
  "sine_error A recovered sv =
     (case cosine_error A recovered sv of
        None \<Rightarrow> None
      | Some c \<Rightarrow>
          if fl A (1 - fl A (c * c)) < 0 then None
          else Some (fl A (sqrt (fl A (1 - fl A (c * c))))))"

text \<open>
  Two arithmetics. \<open>exact_arith\<close> does not round. \<open>ieee_arith\<close> rounds every scalar
  operation to \<open>binary64\<close> and every reduction once, to the format of its result; it is
  what PyTorch computes whenever the partial sums of the reductions are exact, as they are
  for vectors of small integers.
\<close>

definition exact_arith :: arith where
  "exact_arith =
     \<lparr>fl = (\<lambda>x. x), norm_recovered = torch_norm, norm_signal = torch_norm,
      sum_prod = (\<lambda>r s. torch_sum (vmul r s))\<rparr>"

definition ieee_arith :: arith where
  "ieee_arith =
     \<lparr>fl = binary64,
      norm_recovered = (\<lambda>r. binary32 (torch_norm r)),
      norm_signal = (\<lambda>s. binary64 (torch_norm s)),
      sum_prod = (\<lambda>r s. binary64 (torch_sum (vmul r s)))\<rparr>"

definition valid_arith :: "arith \<Rightarrow> bool" where
  \<comment> \<open>what the theorems use of an arithmetic: rounding is monotone, odd and keeps 0 and 1;
      the norm of a zero vector is 0; negating \<open>recovered\<close> keeps its norm and negates the sum\<close>
  "valid_arith A \<longleftrightarrow>
     (\<forall>x y. x \<le> y \<longrightarrow> fl A x \<le> fl A y)
     \<and> fl A 0 = 0 \<and> fl A 1 = 1
     \<and> (\<forall>x. fl A (- x) = - fl A x)
     \<and> (\<forall>k. norm_recovered A (replicate k 0) = 0)
     \<and> (\<forall>r. norm_recovered A (map uminus r) = norm_recovered A r)
     \<and> (\<forall>r s. sum_prod A (map uminus r) s = - sum_prod A r s)"

section \<open>Objective functions (cells 471d0899, c67ed225, 927688d4, d9618a65)\<close>











subsection \<open>What \<open>objective.backward()\<close> adds to the \<open>.grad\<close> fields\<close>









section \<open>Gradient-descent loops (cells a498f210, d2ddb240, 9874a1ba, e879801e)\<close>









section \<open>Hadamard parametrization (cells ce805a1c, ed9f3ff5)\<close>

text \<open>
  \<^verbatim>\<open>
  norm = torch.norm(u * v)
  u = u / (norm ** 0.5)
  v = v / (norm ** 0.5)
  \<close>
  stands after the two \<open>randn\<close> draws and at the end of every round of the loop. The norm
  is not negative, so \<open>norm ** 0.5\<close> is its square root. Nothing tests it: with a zero
  norm every entry of \<open>u\<close> and \<open>v\<close> becomes \<open>nan\<close> or \<open>inf\<close> and stays so in all later
  rounds; that state is \<open>None\<close>.
\<close>

definition renormalize :: "vec \<Rightarrow> vec \<Rightarrow> (vec \<times> vec) option" where
  "renormalize u v =
     (let nrm = torch_norm (vmul u v)
      in if sqrt nrm = 0 then None else Some (vdiv u (sqrt nrm), vdiv v (sqrt nrm)))"

definition hadamard_init :: "vec \<Rightarrow> vec \<Rightarrow> (vec \<times> vec) option" where
  \<comment> \<open>cell ce805a1c, on the two vectors drawn by \<open>randn\<close>\<close>
  "hadamard_init u v = renormalize u v"

definition hadamard_objective :: "mat \<Rightarrow> vec \<Rightarrow> vec \<Rightarrow> real" where
  \<comment> \<open>\<open>((u * v).T @ S @ (u * v))[0][0]\<close>\<close>
  "hadamard_objective S u v = dot (matvec (transpose_T S) (vmul u v)) (vmul u v)"

definition ascent :: "mat \<Rightarrow> real \<Rightarrow> vec \<Rightarrow> vec \<Rightarrow> vec \<times> vec" where
  \<comment> \<open>\<open>du\<close>, \<open>dv\<close> from the old \<open>u\<close>, \<open>v\<close>, then \<open>u += du * step_size\<close>, \<open>v += dv * step_size\<close>\<close>
  "ascent S step_size u v =
     (let du = vmul v (matvec (madd S (transpose_T S)) (vmul u v));
          dv = vmul u (matvec (madd S (transpose_T S)) (vmul u v))
      in (vadd u (vscale du step_size), vadd v (vscale dv step_size)))"

definition hadamard_update :: "mat \<Rightarrow> real \<Rightarrow> vec \<Rightarrow> vec \<Rightarrow> (vec \<times> vec) option" where
  "hadamard_update S step_size u v =
     (case ascent S step_size u v of (u', v') \<Rightarrow> renormalize u' v')"

record hadamard_state =
  uv :: "(vec \<times> vec) option"
  sine_errors_h :: "real option list"
  l1_h :: "real option list"
  printed_h :: "(nat \<times> real option) list"

definition hadamard_metrics :: "arith \<Rightarrow> vec \<Rightarrow> (vec \<times> vec) option \<Rightarrow> real option \<times> real option" where
  "hadamard_metrics A sv x =
     (case x of
        None \<Rightarrow> (None, None)
      | Some (u, v) \<Rightarrow> (sine_error A (vmul u v) sv, Some (norm_l1 (vmul u v))))"

definition hadamard_iteration :: "arith \<Rightarrow> mat \<Rightarrow> vec \<Rightarrow> real \<Rightarrow> nat \<Rightarrow> hadamard_state \<Rightarrow> hadamard_state" where
  "hadamard_iteration A S sv step_size i s =
     (let out = (if i mod 1000 = 0
                 then printed_h s @ [(i, map_option (\<lambda>(u, v). hadamard_objective S u v) (uv s))]
                 else printed_h s);
          x = (case uv s of None \<Rightarrow> None | Some (u, v) \<Rightarrow> hadamard_update S step_size u v)
      in \<lparr>uv = x,
          sine_errors_h = sine_errors_h s @ [fst (hadamard_metrics A sv x)],
          l1_h = l1_h s @ [snd (hadamard_metrics A sv x)],
          printed_h = out\<rparr>)"

definition hadamard_train :: "arith \<Rightarrow> mat \<Rightarrow> vec \<Rightarrow> real \<Rightarrow> nat \<Rightarrow> vec \<Rightarrow> vec \<Rightarrow> hadamard_state" where
  \<comment> \<open>both cells, from the two \<open>randn\<close> draws \<open>u0\<close> and \<open>v0\<close>\<close>
  "hadamard_train A S sv step_size epochs u0 v0 =
     (let x0 = hadamard_init u0 v0;
          s0 = \<lparr>uv = x0,
                sine_errors_h = [fst (hadamard_metrics A sv x0)],
                l1_h = [snd (hadamard_metrics A sv x0)],
                printed_h = []\<rparr>;
          s = fold (hadamard_iteration A S sv step_size) [0..<epochs] s0
      in s\<lparr>printed_h := printed_h s
             @ [(epochs, map_option (\<lambda>(u, v). hadamard_objective S u v) (uv s))]\<rparr>)"



section \<open>Properties of rounding\<close>

lemma round_even_near:
  assumes "of_int m - 1 / 2 < q" "q < of_int m + 1 / 2"
  shows "round_even q = m"
proof (cases "of_int m \<le> q")
  case True
  then have "\<lfloor>q\<rfloor> = m" using assms by (simp add: floor_eq_iff)
  then show ?thesis using assms by (simp add: round_even_def)
next
  case False
  then have "\<lfloor>q\<rfloor> = m - 1" using assms by (simp add: floor_eq_iff)
  then show ?thesis using assms False by (simp add: round_even_def Let_def)
qed

lemma floor_log2_powi:
  assumes "2 powi e \<le> x" "x < 2 powi (e + 1)"
  shows "\<lfloor>log 2 x\<rfloor> = e"
proof -
  have "0 < (2::real) powi e" by simp
  then have x: "0 < x" using assms(1) by linarith
  have "(2::real) powr real_of_int e = 2 powi e"
    by (rule powr_real_of_int') simp_all
  moreover have "(2::real) powr real_of_int (e + 1) = 2 powi (e + 1)"
    by (rule powr_real_of_int') simp_all
  ultimately have "2 powr real_of_int e \<le> x \<and> x < 2 powr real_of_int (e + 1)"
    using assms by simp
  then show ?thesis
    using x floor_log_eq_powr_iff [of x 2 e] by simp
qed

text \<open>
  Rounding at a given number: with the exponent \<open>e\<close> of \<open>x\<close> and the unit \<open>2 powi k\<close> of
  its binade, \<open>x\<close> rounds to the multiple \<open>m\<close> of the unit that is less than half a unit
  away. The second lemma is the same for a square root, with all bounds squared.
\<close>

lemma round_float_near:
  assumes "2 powi e \<le> \<bar>x\<bar>" "\<bar>x\<bar> < 2 powi (e + 1)"
    and "k = max e emin - int prec + 1"
    and "of_int m - 1 / 2 < x / 2 powi k" "x / 2 powi k < of_int m + 1 / 2"
  shows "round_float prec emin x = of_int m * 2 powi k"
proof -
  have "0 < (2::real) powi e" by simp
  then have "0 < \<bar>x\<bar>" using assms(1) by linarith
  then have x: "x \<noteq> 0" by simp
  have e: "\<lfloor>log 2 \<bar>x\<bar>\<rfloor> = e" using assms(1,2) by (rule floor_log2_powi)
  have "round_even (x / 2 powi k) = m" using assms(4,5) by (rule round_even_near)
  then show ?thesis
    using x e assms(3) by (simp add: round_float_def Let_def)
qed

lemma round_float_sqrt_near:
  assumes "(2 powi e)\<^sup>2 \<le> y" "y < (2 powi (e + 1))\<^sup>2"
    and "k = max e emin - int prec + 1"
    and "0 < m"
    and "(2 * of_int m - 1)\<^sup>2 * (2 powi k)\<^sup>2 < 4 * y"
    and "4 * y < (2 * of_int m + 1)\<^sup>2 * (2 powi k)\<^sup>2"
  shows "round_float prec emin (sqrt y) = of_int m * 2 powi k"
proof (rule round_float_near [where e = e])
  have p: "0 < (2::real) powi e" "0 < (2::real) powi (e + 1)" "0 < (2::real) powi k" by simp_all
  have y: "0 \<le> y" using assms(1) by (smt (verit) zero_le_power2)
  show "2 powi e \<le> \<bar>sqrt y\<bar>"
    using assms(1) p y by (simp add: real_le_rsqrt)
  show "\<bar>sqrt y\<bar> < 2 powi (e + 1)"
    using assms(2) p y by (simp add: real_less_lsqrt)
  show "k = max e emin - int prec + 1" by (rule assms(3))
  have m: "0 < 2 * real_of_int m - 1" using assms(4) by simp
  have "((2 * of_int m - 1) * 2 powi k)\<^sup>2 < (2 * sqrt y)\<^sup>2"
    using assms(5) y by (simp add: power_mult_distrib)
  then have "(2 * of_int m - 1) * 2 powi k < 2 * sqrt y"
    by (rule power2_less_imp_less) (use y in simp)
  then show "real_of_int m - 1 / 2 < sqrt y / 2 powi k"
    using p(3) by (simp add: field_simps)
  have "(2 * sqrt y)\<^sup>2 < ((2 * of_int m + 1) * 2 powi k)\<^sup>2"
    using assms(6) y by (simp add: power_mult_distrib)
  then have "2 * sqrt y < (2 * of_int m + 1) * 2 powi k"
    by (rule power2_less_imp_less) (use m p(3) in simp)
  then show "sqrt y / 2 powi k < real_of_int m + 1 / 2"
    using p(3) by (simp add: field_simps)
qed

lemma round_float_0 [simp]: "round_float prec emin 0 = 0"
  by (simp add: round_float_def)

text \<open>
  Rounding to nearest is monotone and odd, for every precision and least exponent.
\<close>

lemma round_even_of_int [simp]: "round_even (of_int n) = n"
  by (simp add: round_even_def)

lemma round_even_bounds: "\<lfloor>q\<rfloor> \<le> round_even q \<and> round_even q \<le> \<lfloor>q\<rfloor> + 1"
  by (simp add: round_even_def Let_def)

lemma round_even_mono:
  assumes "x \<le> y"
  shows "round_even x \<le> round_even y"
proof (cases "\<lfloor>x\<rfloor> = \<lfloor>y\<rfloor>")
  case True
  then show ?thesis using assms by (auto simp: round_even_def Let_def)
next
  case False
  then have "\<lfloor>x\<rfloor> < \<lfloor>y\<rfloor>" using floor_mono [OF assms] by simp
  then show ?thesis using round_even_bounds [of x] round_even_bounds [of y] by linarith
qed

lemma round_even_uminus: "round_even (- q) = - round_even q"
proof (cases "q = of_int \<lfloor>q\<rfloor>")
  case True
  then have "round_even (- of_int \<lfloor>q\<rfloor>) = - round_even (of_int \<lfloor>q\<rfloor> :: real)"
    unfolding of_int_minus [symmetric] round_even_of_int by simp
  then show ?thesis using True by simp
next
  case False
  then have lt: "of_int \<lfloor>q\<rfloor> < q" using of_int_floor_le [of q] by linarith
  have "q < of_int \<lfloor>q\<rfloor> + 1" by linarith
  then have f: "\<lfloor>- q\<rfloor> = - \<lfloor>q\<rfloor> - 1" using lt by (intro floor_unique) linarith+
  show ?thesis
    unfolding round_even_def [of "- q"] round_even_def [of q] Let_def f
    using lt by auto
qed

lemma round_float_uminus: "round_float prec emin (- x) = - round_float prec emin x"
proof (cases "x = 0")
  case False
  define u :: real where "u = 2 powi (max \<lfloor>log 2 \<bar>x\<bar>\<rfloor> emin - int prec + 1)"
  have a: "round_float prec emin x = of_int (round_even (x / u)) * u"
    using False by (simp add: round_float_def Let_def u_def)
  have b: "round_float prec emin (- x) = of_int (round_even (- (x / u))) * u"
    using False by (simp add: round_float_def Let_def u_def)
  show ?thesis unfolding a b round_even_uminus by simp
qed simp

lemma log2_bounds:
  assumes "0 < x"
  shows "2 powi \<lfloor>log 2 x\<rfloor> \<le> x" "x < 2 powi (\<lfloor>log 2 x\<rfloor> + 1)"
proof -
  have a: "(2::real) powr real_of_int \<lfloor>log 2 x\<rfloor> = 2 powi \<lfloor>log 2 x\<rfloor>"
    by (rule powr_real_of_int') simp_all
  have b: "(2::real) powr real_of_int (\<lfloor>log 2 x\<rfloor> + 1) = 2 powi (\<lfloor>log 2 x\<rfloor> + 1)"
    by (rule powr_real_of_int') simp_all
  have "2 powr real_of_int \<lfloor>log 2 x\<rfloor> \<le> x \<and> x < 2 powr real_of_int (\<lfloor>log 2 x\<rfloor> + 1)"
    using assms floor_log_eq_powr_iff [of x 2 "\<lfloor>log 2 x\<rfloor>"] by simp
  then show "2 powi \<lfloor>log 2 x\<rfloor> \<le> x" "x < 2 powi (\<lfloor>log 2 x\<rfloor> + 1)"
    using a b by simp_all
qed

lemma round_float_upper:
  assumes "0 < x"
  shows "round_float prec emin x \<le> 2 powi (max \<lfloor>log 2 x\<rfloor> emin + 1)"
proof -
  define E where "E = max \<lfloor>log 2 x\<rfloor> emin"
  define u :: real where "u = 2 powi (E - int prec + 1)"
  have u: "0 < u" by (simp add: u_def)
  have r: "round_float prec emin x = of_int (round_even (x / u)) * u"
    using assms by (simp add: round_float_def Let_def E_def u_def)
  have "x < 2 powi (\<lfloor>log 2 x\<rfloor> + 1)" using assms by (rule log2_bounds)
  also have "\<dots> \<le> 2 powi (E + 1)" by (rule power_int_increasing) (simp_all add: E_def)
  finally have "x \<le> 2 powi (E + 1)" by simp
  moreover have p: "(2::real) powi (E + 1) = of_int (2 ^ prec) * u"
  proof -
    have "(2::real) powi (int prec + (E - int prec + 1))
            = 2 powi int prec * 2 powi (E - int prec + 1)"
      by (rule power_int_add) simp
    moreover have "int prec + (E - int prec + 1) = E + 1" by simp
    ultimately show ?thesis by (simp add: u_def)
  qed
  ultimately have "x / u \<le> of_int (2 ^ prec)" using u by (simp add: pos_divide_le_eq)
  then have "round_even (x / u) \<le> round_even (of_int (2 ^ prec) :: real)" by (rule round_even_mono)
  then have "round_even (x / u) \<le> 2 ^ prec" unfolding round_even_of_int .
  then have "of_int (round_even (x / u)) * u \<le> of_int (2 ^ prec) * u"
    using u by (intro mult_right_mono) (simp_all del: of_int_power)
  then show ?thesis
    unfolding r E_def [symmetric]
    using p by simp
qed

lemma round_float_lower:
  assumes "0 < x" "emin \<le> \<lfloor>log 2 x\<rfloor>" "0 < prec"
  shows "2 powi \<lfloor>log 2 x\<rfloor> \<le> round_float prec emin x"
proof -
  define E where "E = \<lfloor>log 2 x\<rfloor>"
  define u :: real where "u = 2 powi (E - int prec + 1)"
  have u: "0 < u" by (simp add: u_def)
  have "max \<lfloor>log 2 x\<rfloor> emin = E" using assms(2) by (simp add: E_def)
  then have r: "round_float prec emin x = of_int (round_even (x / u)) * u"
    using assms(1) by (simp add: round_float_def Let_def u_def)
  have x: "2 powi E \<le> x" unfolding E_def using assms(1) by (rule log2_bounds)
  obtain n where n: "prec = Suc n" using assms(3) by (cases prec) auto
  have "(2::real) powi (int n + (E - int prec + 1)) = 2 powi int n * 2 powi (E - int prec + 1)"
    by (rule power_int_add) simp
  moreover have "int n + (E - int prec + 1) = E" using n by simp
  ultimately have e: "(2::real) powi E = of_int (2 ^ n) * u"
    by (simp add: u_def)
  have "of_int (2 ^ n) \<le> x / u" using x u unfolding e by (simp add: pos_le_divide_eq)
  then have "round_even (of_int (2 ^ n) :: real) \<le> round_even (x / u)" by (rule round_even_mono)
  then have "2 ^ n \<le> round_even (x / u)" unfolding round_even_of_int .
  then have "of_int (2 ^ n) * u \<le> of_int (round_even (x / u)) * u"
    using u by (intro mult_right_mono) (simp_all del: of_int_power)
  then show ?thesis unfolding r E_def [symmetric] e .
qed

lemma round_float_mono_pos:
  assumes "0 < x" "x \<le> y" "0 < prec"
  shows "round_float prec emin x \<le> round_float prec emin y"
proof -
  have y: "0 < y" using assms by simp
  have l: "\<lfloor>log 2 x\<rfloor> \<le> \<lfloor>log 2 y\<rfloor>" using assms(1,2) by (intro floor_mono) simp
  show ?thesis
  proof (cases "max \<lfloor>log 2 x\<rfloor> emin = max \<lfloor>log 2 y\<rfloor> emin")
    case True
    define u :: real where "u = 2 powi (max \<lfloor>log 2 y\<rfloor> emin - int prec + 1)"
    have u: "0 < u" by (simp add: u_def)
    have "x / u \<le> y / u" using assms(2) u by (simp add: divide_right_mono)
    then have "round_even (x / u) \<le> round_even (y / u)" by (rule round_even_mono)
    then have "of_int (round_even (x / u)) * u \<le> of_int (round_even (y / u)) * u"
      using u by (intro mult_right_mono) simp_all
    then show ?thesis
      using assms(1) y True by (simp add: round_float_def Let_def u_def)
  next
    case False
    then have lt: "max \<lfloor>log 2 x\<rfloor> emin < \<lfloor>log 2 y\<rfloor>" and ge: "emin \<le> \<lfloor>log 2 y\<rfloor>"
      using l by (auto simp: max_def split: if_splits)
    have "round_float prec emin x \<le> 2 powi (max \<lfloor>log 2 x\<rfloor> emin + 1)"
      using assms(1) by (rule round_float_upper)
    also have "\<dots> \<le> 2 powi \<lfloor>log 2 y\<rfloor>"
      by (rule power_int_increasing) (use lt in linarith, simp)
    also have "\<dots> \<le> round_float prec emin y"
      using y ge assms(3) by (rule round_float_lower)
    finally show ?thesis .
  qed
qed

lemma round_float_nonneg:
  assumes "0 \<le> x"
  shows "0 \<le> round_float prec emin x"
proof (cases "x = 0")
  case False
  define u :: real where "u = 2 powi (max \<lfloor>log 2 \<bar>x\<bar>\<rfloor> emin - int prec + 1)"
  have u: "0 < u" by (simp add: u_def)
  have "0 \<le> x / u" using assms u by simp
  then have "round_even 0 \<le> round_even (x / u)" by (rule round_even_mono)
  then have "0 \<le> round_even (x / u)" by (simp add: round_even_def)
  then show ?thesis using u False by (simp add: round_float_def Let_def u_def)
qed simp

lemma round_float_mono:
  assumes "x \<le> y" "0 < prec"
  shows "round_float prec emin x \<le> round_float prec emin y"
proof -
  consider "0 < x" | "x \<le> 0" "0 \<le> y" | "y < 0" by linarith
  then show ?thesis
  proof cases
    case 1
    then show ?thesis using assms by (rule round_float_mono_pos)
  next
    case 2
    have "0 \<le> round_float prec emin (- x)" using 2(1) by (intro round_float_nonneg) simp
    then have "round_float prec emin x \<le> 0" by (simp add: round_float_uminus)
    also have "0 \<le> round_float prec emin y" using 2(2) by (rule round_float_nonneg)
    finally show ?thesis .
  next
    case 3
    then have "0 < - y" "- y \<le> - x" using assms(1) by simp_all
    then have "round_float prec emin (- y) \<le> round_float prec emin (- x)"
      using assms(2) by (rule round_float_mono_pos)
    then show ?thesis by (simp add: round_float_uminus)
  qed
qed

text \<open>The numbers of the examples below, as Python prints them with \<open>float.hex\<close>.\<close>

lemma binary64_1: "binary64 1 = 1"
  unfolding binary64_def
  by (subst round_float_near [where e = 0 and m = 4503599627370496 and k = "- 52"]) simp_all

lemma binary64_2: "binary64 (real 2) = 2"
  unfolding binary64_def
  by (subst round_float_near [where e = 1 and m = 4503599627370496 and k = "- 51"]) simp_all

lemma binary64_10: "binary64 (real 10) = 10"
  unfolding binary64_def
  by (subst round_float_near [where e = 3 and m = 5629499534213120 and k = "- 49"]) simp_all

lemma binary64_50: "binary64 (real 50) = 50"
  unfolding binary64_def
  by (subst round_float_near [where e = 5 and m = 7036874417766400 and k = "- 47"]) simp_all

lemma binary64_0_1: "binary64 (1 / 10) = 3602879701896397 / 2 ^ 55"
  unfolding binary64_def
  by (subst round_float_near [where e = "- 4" and m = 7205759403792794 and k = "- 56"]) simp_all

lemma binary64_0_3: "binary64 (3 / 10) = 5404319552844595 / 2 ^ 54"
  unfolding binary64_def
  by (subst round_float_near [where e = "- 2" and m = 5404319552844595 and k = "- 54"]) simp_all

lemma binary64_0_14: "binary64 (7 / 50) = 1261007895663739 / 2 ^ 53"
  unfolding binary64_def
  by (subst round_float_near [where e = "- 3" and m = 5044031582654956 and k = "- 55"]) simp_all

lemma binary64_2_0_25: "binary64 (2 * (1 / 4)) = 1 / 2"
  unfolding binary64_def
  by (subst round_float_near [where e = "- 1" and m = 4503599627370496 and k = "- 53"]) simp_all

lemma binary64_2_0_5: "binary64 (2 * (1 / 2)) = 1"
  unfolding binary64_def
  by (subst round_float_near [where e = 0 and m = 4503599627370496 and k = "- 52"]) simp_all

lemma binary64_50_3_10: "binary64 (50 * (3 / 10)) = 15"
  unfolding binary64_def
  by (subst round_float_near [where e = 3 and m = 8444249301319680 and k = "- 49"]) simp_all

lemma binary64_10_0_1: "binary64 (10 * (3602879701896397 / 2 ^ 55)) = 1"
  unfolding binary64_def
  by (subst round_float_near [where e = 0 and m = 4503599627370496 and k = "- 52"]) simp_all

lemma binary64_50_0_3: "binary64 (50 * (5404319552844595 / 2 ^ 54)) = 15"
  unfolding binary64_def
  by (subst round_float_near [where e = 3 and m = 8444249301319680 and k = "- 49"]) simp_all

lemma binary64_50_0_14: "binary64 (50 * (1261007895663739 / 2 ^ 53)) = 7881299347898369 / 2 ^ 50"
  unfolding binary64_def
  by (subst round_float_near [where e = 2 and m = 7881299347898369 and k = "- 50"]) simp_all

section \<open>Properties of the data generator\<close>

lemma fold_update_prefix:
  "k \<le> length buf \<Longrightarrow>
     fold (\<lambda>i a. if c i then a[i := x] else a[i := y]) [0..<k] buf
       = map (\<lambda>i. if c i then x else y) [0..<k] @ drop k buf"
proof (induction k)
  case 0
  then show ?case by simp
next
  case (Suc k)
  then have k: "k < length buf" by simp
  have upd: "(map f [0..<k] @ drop k buf)[k := z] = map f [0..<k] @ z # drop (Suc k) buf"
    for f :: "nat \<Rightarrow> 'a" and z
    using k by (simp add: list_update_append Cons_nth_drop_Suc [symmetric])
  from Suc show ?case
    by (simp add: upd)
qed

lemma sparse_vector_map:
  "length buf = p \<Longrightarrow>
     sparse_vector buf p sparsity
       = map (\<lambda>i. if real i < binary64 (binary64 (real p) * sparsity) then 1 else 0) [0..<p]"
  unfolding sparse_vector_def by (simp add: fold_update_prefix)

lemma threshold_prefix:
  "map (\<lambda>i. if real i < t then 1 else 0) [0..<p]
     = replicate (min p (nat \<lceil>t\<rceil>)) (1::real) @ replicate (p - min p (nat \<lceil>t\<rceil>)) 0"
proof (rule nth_equalityI)
  show "length (map (\<lambda>i. if real i < t then 1 else 0) [0..<p])
      = length (replicate (min p (nat \<lceil>t\<rceil>)) (1::real) @ replicate (p - min p (nat \<lceil>t\<rceil>)) 0)"
    by simp
next
  fix i assume "i < length (map (\<lambda>i. if real i < t then 1 else (0::real)) [0..<p])"
  then have i: "i < p" by simp
  have "real i < t \<longleftrightarrow> int i < \<lceil>t\<rceil>"
    by (simp add: less_ceiling_iff)
  also have "\<dots> \<longleftrightarrow> i < nat \<lceil>t\<rceil>"
    by linarith
  finally have iff: "real i < t \<longleftrightarrow> i < min p (nat \<lceil>t\<rceil>)"
    using i by simp
  show "map (\<lambda>i. if real i < t then 1 else 0) [0..<p] ! i
      = (replicate (min p (nat \<lceil>t\<rceil>)) (1::real) @ replicate (p - min p (nat \<lceil>t\<rceil>)) 0) ! i"
    using i iff by (simp add: nth_append)
qed

lemma count_list_replicate_ones:
  "count_list (replicate k (1::real) @ replicate m 0) 1 = k"
  by (induction k) (simp_all add: count_list_0_iff)

lemma sparse_vector_threshold:
  assumes "length buf = p" and "binary64 (binary64 (real p) * sparsity) = t"
  shows "sparse_vector buf p sparsity
           = replicate (min p (nat \<lceil>t\<rceil>)) 1 @ replicate (p - min p (nat \<lceil>t\<rceil>)) 0"
  using assms by (simp only: sparse_vector_map threshold_prefix)

lemma length_sparse_vector: "length buf = p \<Longrightarrow> length (sparse_vector buf p sparsity) = p"
  by (simp add: sparse_vector_map)

text \<open>
  C1 (amended). For a buffer of length \<open>p\<close> the generated signal vector is a block of ones
  followed by zeros; entry \<open>i\<close> is 1 exactly when \<open>i\<close> is below the product \<open>p * sparsity\<close>
  as the program computes it (in binary64), so the number of ones is the ceiling of that
  computed product cut to the range \<open>0..p\<close>, not the floor of \<open>p * sparsity\<close>.
\<close>

theorem sparse_vector_leading_ones:
  assumes "length buf = p"
  shows "sparse_vector buf p sparsity
           = replicate (min p (nat \<lceil>binary64 (binary64 (real p) * sparsity)\<rceil>)) 1
             @ replicate (p - min p (nat \<lceil>binary64 (binary64 (real p) * sparsity)\<rceil>)) 0
         \<and> count_list (sparse_vector buf p sparsity) 1
             = min p (nat \<lceil>binary64 (binary64 (real p) * sparsity)\<rceil>)
         \<and> sparse_vector buf p sparsity
             = map (\<lambda>i. if real i < binary64 (binary64 (real p) * sparsity) then 1 else 0) [0..<p]"
proof -
  let ?t = "binary64 (binary64 (real p) * sparsity)"
  have m: "sparse_vector buf p sparsity = map (\<lambda>i. if real i < ?t then 1 else 0) [0..<p]"
    using assms by (rule sparse_vector_map)
  have r: "sparse_vector buf p sparsity
           = replicate (min p (nat \<lceil>?t\<rceil>)) 1 @ replicate (p - min p (nat \<lceil>?t\<rceil>)) 0"
    using assms by (rule sparse_vector_threshold) simp
  have c: "count_list (sparse_vector buf p sparsity) 1 = min p (nat \<lceil>?t\<rceil>)"
    unfolding r by (rule count_list_replicate_ones)
  from m r c show ?thesis by blast
qed

text \<open>
  Two runs of the cell. With \<open>p = 10\<close> and \<open>sparsity = 0.1\<close> the computed product is
  exactly 1 (the exact product of 10 and the \<open>float\<close> \<open>0.1\<close> is a little more), so there
  is one 1. With \<open>p = 50\<close> and \<open>sparsity = 0.14\<close> the computed product is a little more
  than 7, so there are eight.
\<close>

lemma product_10_0_1: "binary64 (binary64 (real 10) * binary64 (1 / 10)) = 1"
  by (simp only: binary64_10 binary64_0_1 binary64_10_0_1)

lemma product_50_0_14:
  "binary64 (binary64 (real 50) * binary64 (7 / 50)) = 7881299347898369 / 2 ^ 50"
  by (simp only: binary64_50 binary64_0_14 binary64_50_0_14)

theorem sparse_vector_leading_ones_witness:
  "length (replicate 10 (7::real)) = 10
   \<and> sparse_vector (replicate 10 7) 10 (binary64 (1 / 10)) = 1 # replicate 9 0
   \<and> count_list (sparse_vector (replicate 10 7) 10 (binary64 (1 / 10))) 1 = 1
   \<and> length (replicate 50 (7::real)) = 50
   \<and> sparse_vector (replicate 50 7) 50 (binary64 (7 / 50)) = replicate 8 1 @ replicate 42 0
   \<and> count_list (sparse_vector (replicate 50 7) 50 (binary64 (7 / 50))) 1 = 8"
proof -
  have a: "min 10 (nat \<lceil>1::real\<rceil>) = 1" by simp
  have b: "min 50 (nat \<lceil>7881299347898369 / 2 ^ 50 :: real\<rceil>) = 8"
    by (simp add: ceiling_eq_iff)
  have r: "replicate 1 (1::real) @ replicate (10 - 1) 0 = 1 # replicate 9 0"
    "replicate 8 (1::real) @ replicate (50 - 8) 0 = replicate 8 1 @ replicate 42 0"
    by simp_all
  have h10: "length (replicate 10 (7::real)) = 10"
    and h50: "length (replicate 50 (7::real)) = 50"
    by simp_all
  note t10 = sparse_vector_leading_ones [OF h10, of "binary64 (1 / 10)",
      unfolded product_10_0_1 a r]
  note t50 = sparse_vector_leading_ones [OF h50, of "binary64 (7 / 50)",
      unfolded product_50_0_14 b r]
  show ?thesis
    using h10 h50 t10 t50 by blast
qed

text \<open>
  The claim as written (exactly \<open>floor (p * sparsity)\<close> ones) fails: with \<open>p = 2\<close> and
  \<open>sparsity = 0.25\<close> the product is \<open>0.5\<close>, computed without rounding; index 0 is below it
  and gets a one, while the floor is 0.
\<close>

lemma product_2_0_25: "binary64 (binary64 (real 2) * (1 / 4)) = 1 / 2"
  by (simp only: binary64_2 binary64_2_0_25)

theorem sparse_vector_floor_counterexample:
  "sparse_vector [0, 0] 2 (1 / 4) = [1, 0]
   \<and> count_list (sparse_vector [0, 0] 2 (1 / 4)) 1 = 1
   \<and> binary64 (binary64 (real 2) * (1 / 4)) = 1 / 2
   \<and> nat \<lfloor>binary64 (binary64 (real 2) * (1 / 4))\<rfloor> = 0
   \<and> nat \<lfloor>real 2 * (1 / 4)\<rfloor> = 0
   \<and> count_list (sparse_vector [0, 0] 2 (1 / 4)) 1 \<noteq> nat \<lfloor>real 2 * (1 / 4)\<rfloor>"
proof -
  have "sparse_vector [0, 0] 2 (1 / 4)
      = replicate (min 2 (nat \<lceil>1 / 2 :: real\<rceil>)) 1 @ replicate (2 - min 2 (nat \<lceil>1 / 2 :: real\<rceil>)) 0"
    by (rule sparse_vector_threshold [OF _ product_2_0_25]) simp
  moreover have "\<lceil>1 / 2 :: real\<rceil> = 1" by (rule ceiling_unique) simp_all
  ultimately have sv: "sparse_vector [0, 0] 2 (1 / 4) = [1, 0]" by (simp add: numeral_2_eq_2)
  show ?thesis unfolding product_2_0_25 sv by simp
qed

section \<open>Sums over indices\<close>

lemma sum_list_upt: "sum_list (map f [0..<n]) = (\<Sum>i<n. f i)" for f :: "nat \<Rightarrow> real"
  by (simp add: interv_sum_list_conv_sum_set_nat atLeast0LessThan)

lemma sum_list_nth: "sum_list xs = (\<Sum>i<length xs. xs ! i)" for xs :: "real list"
  by (simp add: sum_list_sum_nth atLeast0LessThan)

lemma length_vmul [simp]: "length (vmul a b) = min (length a) (length b)"
  by (simp add: vmul_def)

lemma nth_vmul [simp]: "i < length a \<Longrightarrow> i < length b \<Longrightarrow> vmul a b ! i = a ! i * b ! i"
  by (simp add: vmul_def)

lemma dot_sum: "length a = length b \<Longrightarrow> dot a b = (\<Sum>i<length a. a ! i * b ! i)"
  unfolding dot_def by (subst sum_list_nth) simp

lemma length_cov_S [simp]: "length sv = p \<Longrightarrow> length (cov_S alpha beta p sv) = p"
  by (simp add: cov_S_def madd_def outer_def mscale_def np_identity_def smul_def)

lemma nth_cov_S:
  "length sv = p \<Longrightarrow> i < p \<Longrightarrow>
     cov_S alpha beta p sv ! i = map (\<lambda>j. alpha * sv ! i * sv ! j + beta * (if i = j then 1 else 0)) [0..<p]"
  by (auto simp add: cov_S_def madd_def outer_def mscale_def np_identity_def smul_def vadd_def
      intro!: nth_equalityI)

lemma cov_S_transpose: "length sv = p \<Longrightarrow> transpose_T (cov_S alpha beta p sv) = cov_S alpha beta p sv"
proof (cases p)
  case 0
  then show ?thesis by (simp add: cov_S_def transpose_T_def madd_def np_identity_def mscale_def)
next
  case (Suc q)
  assume l: "length sv = p"
  let ?S = "cov_S alpha beta p sv"
  have len: "length ?S = p" using l by simp
  then obtain r rs where rs: "?S = r # rs" using Suc by (cases ?S) auto
  have "r = ?S ! 0" using rs by simp
  then have lr: "length r = p" using l Suc by (simp add: nth_cov_S)
  have T: "transpose_T ?S = map (\<lambda>j. map (\<lambda>row. row ! j) ?S) [0..<p]"
    using rs lr by (simp add: transpose_T_def)
  show ?thesis
  proof (rule nth_equalityI)
    show "length (transpose_T ?S) = length ?S" using T len by simp
  next
    fix i assume "i < length (transpose_T ?S)"
    then have i: "i < p" using T by simp
    show "transpose_T ?S ! i = ?S ! i"
      unfolding T using i l len
      by (auto intro!: nth_equalityI simp: nth_cov_S mult_ac)
  qed
qed

lemma matvec_cov_S:
  assumes "length sv = p" "length x = p" "i < p"
  shows "matvec (cov_S alpha beta p sv) x ! i = alpha * sv ! i * dot sv x + beta * x ! i"
proof -
  have "matvec (cov_S alpha beta p sv) x ! i = dot (cov_S alpha beta p sv ! i) x"
    using assms by (simp add: matvec_def)
  also have "\<dots> = (\<Sum>j<p. (alpha * sv ! i * sv ! j + beta * (if i = j then 1 else 0)) * x ! j)"
    using assms by (simp add: nth_cov_S dot_sum)
  also have "\<dots> = (\<Sum>j<p. alpha * sv ! i * (sv ! j * x ! j) + beta * (if i = j then x ! j else 0))"
    by (rule sum.cong) (simp_all add: algebra_simps)
  also have "\<dots> = alpha * sv ! i * (\<Sum>j<p. sv ! j * x ! j) + beta * (\<Sum>j<p. (if i = j then x ! j else 0))"
    by (simp only: sum.distrib sum_distrib_left)
  also have "(\<Sum>j<p. (if i = j then x ! j else 0)) = x ! i"
    using assms by simp
  finally show ?thesis using assms by (simp add: dot_sum)
qed

lemma quad_cov_S:
  assumes "length sv = p" "length x = p"
  shows "dot x (matvec (cov_S alpha beta p sv) x) = alpha * (dot sv x)^2 + beta * dot x x"
proof -
  have "length (matvec (cov_S alpha beta p sv) x) = p"
    using assms by (simp add: matvec_def)
  then have "dot x (matvec (cov_S alpha beta p sv) x)
      = (\<Sum>i<p. x ! i * matvec (cov_S alpha beta p sv) x ! i)"
    using assms by (simp add: dot_sum)
  also have "\<dots> = (\<Sum>i<p. alpha * dot sv x * (sv ! i * x ! i) + beta * (x ! i * x ! i))"
    using assms by (intro sum.cong) (simp_all add: matvec_cov_S algebra_simps)
  also have "\<dots> = alpha * dot sv x * (\<Sum>i<p. sv ! i * x ! i) + beta * (\<Sum>i<p. x ! i * x ! i)"
    by (simp add: sum.distrib sum_distrib_left)
  finally show ?thesis using assms by (simp add: dot_sum power2_eq_square)
qed

lemma dot_self_nonneg: "0 \<le> dot x x"
  unfolding dot_def by (induction x) simp_all

section \<open>Norms, products and the Cauchy-Schwarz inequality\<close>

lemma torch_norm_dot: "torch_norm a = sqrt (dot a a)"
  by (simp add: torch_norm_def dot_def zip_same_conv_map comp_def)

lemma torch_sum_vmul: "torch_sum (vmul a b) = dot a b"
  by (simp add: torch_sum_def vmul_def dot_def)

lemma dot_self_zero_iff: "dot x x = 0 \<longleftrightarrow> (\<forall>y\<in>set x. y = 0)"
proof (induction x)
  case Nil
  then show ?case by (simp add: dot_def)
next
  case (Cons a x)
  have "0 \<le> dot x x" by (rule dot_self_nonneg)
  moreover have "dot (a # x) (a # x) = a * a + dot x x" by (simp add: dot_def)
  moreover have "0 \<le> a * a" by simp
  ultimately have "dot (a # x) (a # x) = 0 \<longleftrightarrow> a = 0 \<and> dot x x = 0"
    by (smt (verit) mult_eq_0_iff)
  then show ?case using Cons by auto
qed

lemma torch_norm_zero_iff: "torch_norm x = 0 \<longleftrightarrow> (\<forall>y\<in>set x. y = 0)"
  by (simp add: torch_norm_dot dot_self_zero_iff)

lemma torch_norm_nonneg: "0 \<le> torch_norm x"
  by (simp add: torch_norm_dot dot_self_nonneg)

lemma cauchy_schwarz_step:
  fixes x y P A B :: real
  assumes "P\<^sup>2 \<le> A * B" "0 \<le> A" "0 \<le> B"
  shows "(x * y + P)\<^sup>2 \<le> (x * x + A) * (y * y + B)"
proof -
  define s t where "s = sqrt A" and "t = sqrt B"
  have st: "0 \<le> s" "0 \<le> t" "s * s = A" "t * t = B"
    using assms by (simp_all add: s_def t_def)
  have "P\<^sup>2 \<le> (s * t)\<^sup>2"
    using assms st by (simp add: power2_eq_square algebra_simps)
  then have P: "\<bar>P\<bar> \<le> s * t"
    using st by (simp add: abs_le_square_iff [symmetric])
  have "(\<bar>x\<bar> * t - \<bar>y\<bar> * s)\<^sup>2
      = \<bar>x\<bar> * \<bar>x\<bar> * (t * t) + \<bar>y\<bar> * \<bar>y\<bar> * (s * s) - 2 * (\<bar>x\<bar> * \<bar>y\<bar>) * (s * t)"
    by (simp add: power2_eq_square algebra_simps)
  also have "\<dots> = x * x * B + y * y * A - 2 * (\<bar>x\<bar> * \<bar>y\<bar>) * (s * t)"
    by (simp only: st abs_mult_self_eq)
  finally have q: "2 * (\<bar>x\<bar> * \<bar>y\<bar>) * (s * t) \<le> x * x * B + y * y * A"
    using zero_le_power2 [of "\<bar>x\<bar> * t - \<bar>y\<bar> * s"] by linarith
  have "(x * y) * P \<le> \<bar>(x * y) * P\<bar>" by (rule abs_ge_self)
  also have "\<dots> = (\<bar>x\<bar> * \<bar>y\<bar>) * \<bar>P\<bar>" by (simp only: abs_mult)
  also have "\<dots> \<le> (\<bar>x\<bar> * \<bar>y\<bar>) * (s * t)"
    using P by (intro mult_left_mono) simp_all
  finally have "2 * ((x * y) * P) \<le> x * x * B + y * y * A"
    using q by linarith
  moreover have "(x * y + P)\<^sup>2 = (x * x) * (y * y) + 2 * ((x * y) * P) + P\<^sup>2"
    by (simp add: power2_eq_square algebra_simps)
  moreover have "(x * x + A) * (y * y + B) = (x * x) * (y * y) + (x * x * B + y * y * A) + A * B"
    by (simp add: algebra_simps)
  ultimately show ?thesis
    using assms(1) by linarith
qed

lemma cauchy_schwarz: "length a = length b \<Longrightarrow> (dot a b)\<^sup>2 \<le> dot a a * dot b b"
proof (induction a b rule: list_induct2)
  case Nil
  then show ?case by (simp add: dot_def)
next
  case (Cons x xs y ys)
  have "(x * y + dot xs ys)\<^sup>2 \<le> (x * x + dot xs xs) * (y * y + dot ys ys)"
    using Cons.IH dot_self_nonneg [of xs] dot_self_nonneg [of ys]
    by (rule cauchy_schwarz_step)
  then show ?case by (simp add: dot_def)
qed

lemma dot_smul_left: "dot (smul c a) b = c * dot a b"
proof (induction a arbitrary: b)
  case Nil
  then show ?case by (simp add: dot_def smul_def)
next
  case (Cons x a)
  then show ?case by (cases b) (simp_all add: dot_def smul_def algebra_simps)
qed

lemma dot_smul_self: "dot (smul c a) (smul c a) = c * c * dot a a"
  by (induction a) (simp_all add: dot_def smul_def algebra_simps)

lemma torch_norm_smul: "torch_norm (smul c a) = \<bar>c\<bar> * torch_norm a"
  by (simp add: torch_norm_dot dot_smul_self real_sqrt_mult)

lemma cosine_square_le_1:
  assumes "length r = length s" "torch_norm r \<noteq> 0" "torch_norm s \<noteq> 0"
  shows "(dot r s / (torch_norm r * torch_norm s))\<^sup>2 \<le> 1"
proof -
  have pos: "0 < dot r r * dot s s"
    using assms dot_self_nonneg [of r] dot_self_nonneg [of s]
    by (simp add: torch_norm_dot less_le)
  have "(dot r s / (torch_norm r * torch_norm s))\<^sup>2 = (dot r s)\<^sup>2 / (dot r r * dot s s)"
    using dot_self_nonneg [of r] dot_self_nonneg [of s]
    by (simp add: power_divide power_mult_distrib torch_norm_dot)
  also have "\<dots> \<le> 1"
    using cauchy_schwarz [OF assms(1)] pos by simp
  finally show ?thesis .
qed

section \<open>The scenario of the notebook\<close>

lemma product_50_0_3: "binary64 (binary64 (real 50) * binary64 (3 / 10)) = 15"
  by (simp only: binary64_50 binary64_0_3 binary64_50_0_3)

lemma product_50_3_10: "binary64 (binary64 (real 50) * (3 / 10)) = 15"
  by (simp only: binary64_50 binary64_50_3_10)

text \<open>
  C9. With \<open>p = 50\<close> and \<open>sparsity = 0.3\<close> (the values of \<open>n\<close>, \<open>alpha\<close> and \<open>beta\<close>
  play no part in the loop) the signal vector has ones at the indices 0 to 14 and zeros at
  the indices 15 to 49: fifteen ones. The literal \<open>0.3\<close> is the \<open>float\<close>
  \<open>binary64 (3 / 10)\<close>, and the computed product is exactly 15; the same vector comes out
  for the fraction \<open>3 / 10\<close> itself.
\<close>

theorem sparse_vector_scenario:
  assumes "length buf = 50"
  shows "sparse_vector buf 50 (binary64 (3 / 10)) = replicate 15 1 @ replicate 35 0
         \<and> count_list (sparse_vector buf 50 (binary64 (3 / 10))) 1 = 15
         \<and> sparse_vector buf 50 (3 / 10) = replicate 15 1 @ replicate 35 0
         \<and> count_list (sparse_vector buf 50 (3 / 10)) 1 = 15"
proof -
  have c: "min 50 (nat \<lceil>15::real\<rceil>) = 15" by simp
  have "sparse_vector buf 50 (binary64 (3 / 10))
      = replicate (min 50 (nat \<lceil>15::real\<rceil>)) 1 @ replicate (50 - min 50 (nat \<lceil>15::real\<rceil>)) 0"
    using assms product_50_0_3 by (rule sparse_vector_threshold)
  then have r: "sparse_vector buf 50 (binary64 (3 / 10)) = replicate 15 1 @ replicate 35 0"
    by (simp only: c) simp
  have "sparse_vector buf 50 (3 / 10)
      = replicate (min 50 (nat \<lceil>15::real\<rceil>)) 1 @ replicate (50 - min 50 (nat \<lceil>15::real\<rceil>)) 0"
    using assms product_50_3_10 by (rule sparse_vector_threshold)
  then have r': "sparse_vector buf 50 (3 / 10) = replicate 15 1 @ replicate 35 0"
    by (simp only: c) simp
  have n: "count_list (replicate 15 (1::real) @ replicate 35 0) 1 = 15"
    by (rule count_list_replicate_ones)
  show ?thesis
    unfolding r r' using n by simp
qed

theorem sparse_vector_scenario_witness:
  "length (replicate 50 (0::real)) = 50
   \<and> sparse_vector (replicate 50 0) 50 (binary64 (3 / 10)) = replicate 15 1 @ replicate 35 0
   \<and> count_list (sparse_vector (replicate 50 0) 50 (binary64 (3 / 10))) 1 = 15
   \<and> sparse_vector (replicate 50 0) 50 (3 / 10) = replicate 15 1 @ replicate 35 0
   \<and> count_list (sparse_vector (replicate 50 0) 50 (3 / 10)) 1 = 15"
proof -
  have h: "length (replicate 50 (0::real)) = 50" by simp
  show ?thesis using h sparse_vector_scenario [OF h] by blast
qed

text \<open>
  The product \<open>p * sparsity\<close> is a binary floating-point product in the notebook. Whatever
  it rounds to between 14 (excluded) and 15 (included), the loop writes the same vector.
\<close>

lemma threshold_window:
  assumes "14 < t" "t \<le> 15" "length buf = 50"
  shows "fold (\<lambda>i a. if real i < t then a[i := 1] else a[i := 0]) [0..<50] buf
           = replicate 15 (1::real) @ replicate 35 0"
proof -
  have "\<lceil>t\<rceil> = 15" using assms by (simp add: ceiling_eq_iff)
  then have c: "min 50 (nat \<lceil>t\<rceil>) = 15" by simp
  have "fold (\<lambda>i a. if real i < t then a[i := 1] else a[i := 0]) [0..<50] buf
      = map (\<lambda>i. if real i < t then 1 else 0) [0..<50]"
    using assms by (simp add: fold_update_prefix)
  also have "\<dots> = replicate (min 50 (nat \<lceil>t\<rceil>)) 1 @ replicate (50 - min 50 (nat \<lceil>t\<rceil>)) 0"
    by (rule threshold_prefix)
  finally show ?thesis by (simp only: c) simp
qed

section \<open>The covariance matrix\<close>

text \<open>
  C4. For \<open>alpha \<ge> 0\<close> and \<open>beta \<ge> 0\<close> the matrix \<open>S\<close> built by the data generator is
  symmetric (\<open>S.T = S\<close>) and positive semi-definite (\<open>x.T @ S @ x \<ge> 0\<close> for every column
  \<open>x\<close> of \<open>p\<close> entries).
\<close>

theorem cov_S_symmetric_psd:
  assumes "0 \<le> alpha" "0 \<le> beta" "length buf = p"
  shows "transpose_T (cov_S alpha beta p (sparse_vector buf p sparsity))
           = cov_S alpha beta p (sparse_vector buf p sparsity)
         \<and> (\<forall>x. length x = p \<longrightarrow>
               0 \<le> dot x (matvec (cov_S alpha beta p (sparse_vector buf p sparsity)) x))"
proof -
  let ?sv = "sparse_vector buf p sparsity"
  have l: "length ?sv = p" using assms(3) by (rule length_sparse_vector)
  have "0 \<le> dot x (matvec (cov_S alpha beta p ?sv) x)" if "length x = p" for x
  proof -
    have "0 \<le> alpha * (dot ?sv x)\<^sup>2" using assms(1) by simp
    moreover have "0 \<le> beta * dot x x" using assms(2) dot_self_nonneg by simp
    ultimately show ?thesis using l that by (simp add: quad_cov_S)
  qed
  then show ?thesis using l by (simp add: cov_S_transpose)
qed

theorem cov_S_symmetric_psd_witness:
  "(0::real) \<le> 4 / 5 \<and> (0::real) \<le> 1 / 5 \<and> length [0, 0 :: real] = 2
   \<and> cov_S (4 / 5) (1 / 5) 2 (sparse_vector [0, 0] 2 (1 / 2)) = [[1, 0], [0, 1 / 5]]
   \<and> transpose_T [[1, 0], [0, 1 / 5 :: real]] = [[1, 0], [0, 1 / 5]]
   \<and> 0 \<le> dot [1, - 1] (matvec [[1, 0], [0, 1 / 5]] [1, - 1])"
proof -
  have "binary64 (binary64 (real 2) * (1 / 2)) = 1"
    by (simp only: binary64_2 binary64_2_0_5)
  then have "sparse_vector [0, 0] 2 (1 / 2)
      = replicate (min 2 (nat \<lceil>1::real\<rceil>)) 1 @ replicate (2 - min 2 (nat \<lceil>1::real\<rceil>)) 0"
    by (intro sparse_vector_threshold) simp_all
  then have sv: "sparse_vector [0, 0] 2 (1 / 2) = [1, 0]"
    by (simp add: numeral_2_eq_2)
  have S: "cov_S (4 / 5) (1 / 5) 2 (sparse_vector [0, 0] 2 (1 / 2)) = [[1, 0], [0, 1 / 5]]"
    unfolding sv
    by (simp add: cov_S_def madd_def outer_def smul_def mscale_def
        np_identity_def vadd_def numeral_2_eq_2)
  show ?thesis
    using cov_S_symmetric_psd [of "4 / 5" "1 / 5" "[0, 0]" 2 "1 / 2"] S
    by simp
qed

section \<open>The sine error\<close>

subsection \<open>In exact arithmetic\<close>

lemma exact_arith_fields [simp]:
  "fl exact_arith x = x" "norm_recovered exact_arith r = torch_norm r"
  "norm_signal exact_arith s = torch_norm s" "sum_prod exact_arith r s = dot r s"
  by (simp_all add: exact_arith_def torch_sum_vmul)

lemma cosine_error_exact:
  assumes "torch_norm r \<noteq> 0" "torch_norm s \<noteq> 0"
  shows "cosine_error exact_arith r s = Some (dot r s / (torch_norm r * torch_norm s))"
  using assms by (simp add: cosine_error_def cosine_denominator_def)

lemma sine_error_exact_interval:
  assumes "length r = length s" "torch_norm r \<noteq> 0" "torch_norm s \<noteq> 0"
  shows "\<exists>e. sine_error exact_arith r s = Some e \<and> 0 \<le> e \<and> e \<le> 1"
proof -
  let ?c = "dot r s / (torch_norm r * torch_norm s)"
  have c: "?c * ?c \<le> 1"
    using cosine_square_le_1 [OF assms] by (simp add: power2_eq_square)
  have "sine_error exact_arith r s = Some (sqrt (1 - ?c * ?c))"
    using assms c by (simp add: sine_error_def cosine_error_exact)
  moreover have "0 \<le> sqrt (1 - ?c * ?c)" using c by simp
  moreover have "sqrt (1 - ?c * ?c) \<le> 1" by (simp add: real_le_lsqrt)
  ultimately show ?thesis by blast
qed

lemma cosine_error_smul:
  assumes "c \<noteq> 0"
  shows "cosine_error exact_arith (smul c r) s
           = map_option (\<lambda>x. sgn c * x) (cosine_error exact_arith r s)"
proof -
  have "sgn c * (dot r s / (torch_norm r * torch_norm s))
      = (c / \<bar>c\<bar>) * (dot r s / (torch_norm r * torch_norm s))"
    using assms by (simp add: sgn_real_def)
  also have "\<dots> = (c * dot r s) / (\<bar>c\<bar> * (torch_norm r * torch_norm s))"
    by (rule times_divide_times_eq)
  finally have q: "(c * dot r s) / (\<bar>c\<bar> * (torch_norm r * torch_norm s))
      = sgn c * (dot r s / (torch_norm r * torch_norm s))" by (rule sym)
  show ?thesis
  proof (cases "torch_norm r * torch_norm s = 0")
    case True
    then show ?thesis
      by (simp add: cosine_error_def cosine_denominator_def torch_norm_smul)
  next
    case False
    then have "\<bar>c\<bar> * (torch_norm r * torch_norm s) \<noteq> 0" using assms by simp
    then show ?thesis using False q
      by (simp add: cosine_error_def cosine_denominator_def dot_smul_left
          torch_norm_smul mult.assoc)
  qed
qed

lemma sine_error_smul:
  assumes "c \<noteq> 0"
  shows "sine_error exact_arith (smul c r) s = sine_error exact_arith r s"
proof -
  have q: "sgn c * x * (sgn c * x) = x * x" for x
    using assms by (simp add: sgn_real_def)
  show ?thesis
    by (simp add: sine_error_def cosine_error_smul [OF assms] q split: option.splits)
qed

lemma sine_error_example: "sine_error exact_arith [3, 4] [1, 0] = Some (4 / 5)"
proof -
  have a: "sqrt 25 = 5" using real_sqrt_abs [of 5] by simp
  have b: "sqrt (16 / 25) = 4 / 5" using real_sqrt_abs [of "4 / 5"] by (simp add: power2_eq_square)
  have d: "dot [3, 4] [1, 0] = 3" by (simp add: dot_def)
  show ?thesis
    by (simp add: sine_error_def cosine_error_def cosine_denominator_def torch_norm_def d a b)
qed

subsection \<open>In any arithmetic\<close>

lemma smul_minus_one: "smul (- 1) r = map uminus r"
  by (simp add: smul_def)

lemma valid_exact_arith: "valid_arith exact_arith"
proof -
  have "torch_norm (map uminus r) = torch_norm r" for r
    using torch_norm_smul [of "- 1" r] by (simp add: smul_minus_one)
  moreover have "dot (map uminus r) s = - dot r s" for r s
    using dot_smul_left [of "- 1" r s] by (simp add: smul_minus_one)
  ultimately show ?thesis
    by (simp add: valid_arith_def torch_norm_zero_iff)
qed

lemma sine_error_range:
  assumes v: "valid_arith A" and e: "sine_error A r s = Some e"
  shows "0 \<le> e \<and> e \<le> 1"
proof -
  have mono: "\<And>x y. x \<le> y \<Longrightarrow> fl A x \<le> fl A y" and f0: "fl A 0 = 0" and f1: "fl A 1 = 1"
    using v by (simp_all add: valid_arith_def)
  from e obtain c where c: "cosine_error A r s = Some c"
    by (auto simp: sine_error_def split: option.splits)
  let ?x = "fl A (1 - fl A (c * c))"
  have x0: "0 \<le> ?x" and ev: "e = fl A (sqrt ?x)"
    using e c by (auto simp: sine_error_def split: if_splits)
  have "fl A 0 \<le> fl A (c * c)" by (rule mono) simp
  then have "1 - fl A (c * c) \<le> 1" using f0 by simp
  then have "?x \<le> fl A 1" by (rule mono)
  then have x1: "?x \<le> 1" using f1 by simp
  have "fl A 0 \<le> fl A (sqrt ?x)" by (rule mono) (use x0 in simp)
  moreover have "fl A (sqrt ?x) \<le> fl A 1" by (rule mono) (use x1 in \<open>simp add: real_le_lsqrt\<close>)
  ultimately show ?thesis using f0 f1 ev by simp
qed

lemma sine_error_uminus:
  assumes v: "valid_arith A"
  shows "sine_error A (map uminus r) s = sine_error A r s"
proof -
  have odd: "\<And>x. fl A (- x) = - fl A x"
    and n: "\<And>r. norm_recovered A (map uminus r) = norm_recovered A r"
    and sp: "\<And>r s. sum_prod A (map uminus r) s = - sum_prod A r s"
    using v by (simp_all add: valid_arith_def)
  have d: "cosine_denominator A (map uminus r) s = cosine_denominator A r s"
    by (simp add: cosine_denominator_def n)
  have "cosine_error A (map uminus r) s = map_option uminus (cosine_error A r s)"
    by (simp add: cosine_error_def d sp odd)
  then show ?thesis
    by (simp add: sine_error_def split: option.splits)
qed

lemma sine_error_zero_vector:
  assumes v: "valid_arith A"
  shows "norm_recovered A (replicate k 0) = 0"
    and "cosine_denominator A (replicate k 0) sv = 0"
    and "cosine_error A (replicate k 0) sv = None"
    and "sine_error A (replicate k 0) sv = None"
proof -
  show n: "norm_recovered A (replicate k 0) = 0"
    using v by (simp add: valid_arith_def)
  have "fl A 0 = 0" using v by (simp add: valid_arith_def)
  then show d: "cosine_denominator A (replicate k 0) sv = 0"
    by (simp add: cosine_denominator_def n)
  then show c: "cosine_error A (replicate k 0) sv = None"
    by (simp add: cosine_error_def)
  then show "sine_error A (replicate k 0) sv = None"
    by (simp add: sine_error_def)
qed

subsection \<open>In IEEE arithmetic\<close>

lemma ieee_arith_fields [simp]:
  "fl ieee_arith x = binary64 x" "norm_recovered ieee_arith r = binary32 (torch_norm r)"
  "norm_signal ieee_arith s = binary64 (torch_norm s)"
  "sum_prod ieee_arith r s = binary64 (dot r s)"
  by (simp_all add: ieee_arith_def torch_sum_vmul)

lemma binary_0 [simp]: "binary64 0 = 0" "binary32 0 = 0"
  by (simp_all add: binary64_def binary32_def)

text \<open>
  The IEEE arithmetic has the properties that the general theorems ask for, so they hold
  of it.
\<close>

lemma valid_ieee_arith: "valid_arith ieee_arith"
proof -
  have n: "torch_norm (map uminus r) = torch_norm r" for r
    using torch_norm_smul [of "- 1" r] by (simp add: smul_minus_one)
  have d: "dot (map uminus r) s = - dot r s" for r s
    using dot_smul_left [of "- 1" r s] by (simp add: smul_minus_one)
  have m: "x \<le> y \<Longrightarrow> binary64 x \<le> binary64 y" for x y
    by (simp add: binary64_def round_float_mono)
  have u: "binary64 (- x) = - binary64 x" for x
    by (simp add: binary64_def round_float_uminus)
  have z: "torch_norm (replicate k 0) = 0" for k
    by (simp add: torch_norm_zero_iff)
  show ?thesis
    by (simp add: valid_arith_def binary64_1 n d m u z)
qed

lemma sine_error_ieee_zero_vector:
  "cosine_denominator ieee_arith (replicate k 0) sv = 0"
  "cosine_error ieee_arith (replicate k 0) sv = None"
  "sine_error ieee_arith (replicate k 0) sv = None"
proof -
  have "torch_norm (replicate k 0) = 0" by (simp add: torch_norm_zero_iff)
  then show d: "cosine_denominator ieee_arith (replicate k 0) sv = 0"
    by (simp add: cosine_denominator_def)
  then show c: "cosine_error ieee_arith (replicate k 0) sv = None"
    by (simp add: cosine_error_def)
  then show "sine_error ieee_arith (replicate k 0) sv = None"
    by (simp add: sine_error_def)
qed

text \<open>
  The metric in \<open>ieee_arith\<close>, from the two norms, the sum of the products and the numbers
  that the five scalar operations round to.
\<close>

lemma sine_error_ieee_steps:
  assumes "binary32 (torch_norm r) = n1" "binary64 (torch_norm s) = n2" "binary64 (dot r s) = sp"
    and "binary64 (n1 * n2) = d" "d \<noteq> 0" "binary64 (sp / d) = c" "binary64 (c * c) = c2"
    and "binary64 (1 - c2) = x"
  shows "sine_error ieee_arith r s = (if x < 0 then None else Some (binary64 (sqrt x)))"
  using assms by (simp add: sine_error_def cosine_error_def cosine_denominator_def)

lemma sine_error_ieee_parallel:
  "sine_error ieee_arith [1, 1] [1, 1] = None"
proof -
  have nr: "torch_norm [1, 1] = sqrt 2"
    by (simp add: torch_norm_def sum_list_replicate)
  have ns: "torch_norm [1, 1] = sqrt 2"
    by (simp add: torch_norm_def sum_list_replicate)
  have dt: "dot [1, 1] [1, 1] = 2"
    by (simp add: dot_def sum_list_replicate)
  have n1: "binary32 (sqrt 2) = 11863283 / 2 ^ 23"
    unfolding binary32_def
    by (subst round_float_sqrt_near [where e = 0 and m = 11863283 and k = "- 23"]) (simp_all add: power2_eq_square)
  have n2: "binary64 (sqrt 2) = 6369051672525773 / 2 ^ 52"
    unfolding binary64_def
    by (subst round_float_sqrt_near [where e = 0 and m = 6369051672525773 and k = "- 52"]) (simp_all add: power2_eq_square)
  have sp: "binary64 (2) = 2"
    unfolding binary64_def
    by (subst round_float_near [where e = 1 and m = 4503599627370496 and k = "- 51"]) simp_all
  have d: "binary64 (11863283 / 2 ^ 23 * (6369051672525773 / 2 ^ 52)) = 9007199100589343 / 2 ^ 52"
    unfolding binary64_def
    by (subst round_float_near [where e = 0 and m = 9007199100589343 and k = "- 52"]) simp_all
  have c: "binary64 (2 / (9007199100589343 / 2 ^ 52)) = 2251799852223161 / 2 ^ 51"
    unfolding binary64_def
    by (subst round_float_near [where e = 0 and m = 4503599704446322 and k = "- 52"]) simp_all
  have c2: "binary64 (2251799852223161 / 2 ^ 51 * (2251799852223161 / 2 ^ 51)) = 4503599781522149 / 2 ^ 52"
    unfolding binary64_def
    by (subst round_float_near [where e = 0 and m = 4503599781522149 and k = "- 52"]) simp_all
  have x: "binary64 (1 - 4503599781522149 / 2 ^ 52) = - (154151653 / 2 ^ 52)"
    unfolding binary64_def
    by (subst round_float_near [where e = "- 25" and m = "- 5172471158276096" and k = "- 77"]) simp_all
  have neg: "(- (154151653 / 2 ^ 52) :: real) < 0" by simp
  show ?thesis
    using sine_error_ieee_steps [of "[1, 1]" "11863283 / 2 ^ 23" "[1, 1]" "6369051672525773 / 2 ^ 52" "2" "9007199100589343 / 2 ^ 52" "2251799852223161 / 2 ^ 51" "4503599781522149 / 2 ^ 52" "- (154151653 / 2 ^ 52)",
        unfolded nr ns dt, OF n1 n2 sp d _ c c2 x] neg
    by simp
qed

lemma sine_error_ieee_signal:
  "sine_error ieee_arith (replicate 15 1 @ replicate 35 0) (replicate 15 1 @ replicate 35 0) = Some (8771035134354901 / 2 ^ 65)"
proof -
  have nr: "torch_norm (replicate 15 1 @ replicate 35 0) = sqrt 15"
    by (simp add: torch_norm_def sum_list_replicate)
  have ns: "torch_norm (replicate 15 1 @ replicate 35 0) = sqrt 15"
    by (simp add: torch_norm_def sum_list_replicate)
  have dt: "dot (replicate 15 1 @ replicate 35 0) (replicate 15 1 @ replicate 35 0) = 15"
    by (simp add: dot_def sum_list_replicate)
  have n1: "binary32 (sqrt 15) = 8122235 / 2 ^ 21"
    unfolding binary32_def
    by (subst round_float_sqrt_near [where e = 1 and m = 16244470 and k = "- 22"]) (simp_all add: power2_eq_square)
  have n2: "binary64 (sqrt 15) = 4360591588697965 / 2 ^ 50"
    unfolding binary64_def
    by (subst round_float_sqrt_near [where e = 1 and m = 8721183177395930 and k = "- 51"]) (simp_all add: power2_eq_square)
  have sp: "binary64 (15) = 15"
    unfolding binary64_def
    by (subst round_float_near [where e = 3 and m = 8444249301319680 and k = "- 49"]) simp_all
  have d: "binary64 (8122235 / 2 ^ 21 * (4360591588697965 / 2 ^ 50)) = 8444249539954237 / 2 ^ 49"
    unfolding binary64_def
    by (subst round_float_near [where e = 3 and m = 8444249539954237 and k = "- 49"]) simp_all
  have c: "binary64 (15 / (8444249539954237 / 2 ^ 49)) = 281474968756171 / 2 ^ 48"
    unfolding binary64_def
    by (subst round_float_near [where e = "- 1" and m = 9007199000197472 and k = "- 53"]) simp_all
  have c2: "binary64 (281474968756171 / 2 ^ 48 * (281474968756171 / 2 ^ 48)) = 9007198745653959 / 2 ^ 53"
    unfolding binary64_def
    by (subst round_float_near [where e = "- 1" and m = 9007198745653959 and k = "- 53"]) simp_all
  have x: "binary64 (1 - 9007198745653959 / 2 ^ 53) = 509087033 / 2 ^ 53"
    unfolding binary64_def
    by (subst round_float_near [where e = "- 25" and m = 8541063115440128 and k = "- 77"]) simp_all
  have root: "binary64 (sqrt (509087033 / 2 ^ 53)) = 8771035134354901 / 2 ^ 65"
    unfolding binary64_def
    by (subst round_float_sqrt_near [where e = "- 13" and m = 8771035134354901 and k = "- 65"]) (simp_all add: power2_eq_square)
  have pos: "\<not> (509087033 / 2 ^ 53 :: real) < 0" by simp
  show ?thesis
    using sine_error_ieee_steps [of "replicate 15 1 @ replicate 35 0" "8122235 / 2 ^ 21" "replicate 15 1 @ replicate 35 0" "4360591588697965 / 2 ^ 50" "15" "8444249539954237 / 2 ^ 49" "281474968756171 / 2 ^ 48" "9007198745653959 / 2 ^ 53" "509087033 / 2 ^ 53",
        unfolded nr ns dt, OF n1 n2 sp d _ c c2 x] pos root
    by simp
qed

lemma sine_error_ieee_signal_scaled:
  "sine_error ieee_arith (smul 3 (replicate 15 1 @ replicate 35 0)) (replicate 15 1 @ replicate 35 0) = None"
proof -
  have nr: "torch_norm (smul 3 (replicate 15 1 @ replicate 35 0)) = sqrt 135"
    by (simp add: torch_norm_def sum_list_replicate smul_def)
  have ns: "torch_norm (replicate 15 1 @ replicate 35 0) = sqrt 15"
    by (simp add: torch_norm_def sum_list_replicate smul_def)
  have dt: "dot (smul 3 (replicate 15 1 @ replicate 35 0)) (replicate 15 1 @ replicate 35 0) = 45"
    by (simp add: dot_def sum_list_replicate smul_def)
  have n1: "binary32 (sqrt 135) = 1522919 / 2 ^ 17"
    unfolding binary32_def
    by (subst round_float_sqrt_near [where e = 3 and m = 12183352 and k = "- 20"]) (simp_all add: power2_eq_square)
  have n2: "binary64 (sqrt 15) = 4360591588697965 / 2 ^ 50"
    unfolding binary64_def
    by (subst round_float_sqrt_near [where e = 1 and m = 8721183177395930 and k = "- 51"]) (simp_all add: power2_eq_square)
  have sp: "binary64 (45) = 45"
    unfolding binary64_def
    by (subst round_float_near [where e = 5 and m = 6333186975989760 and k = "- 47"]) simp_all
  have d: "binary64 (1522919 / 2 ^ 17 * (4360591588697965 / 2 ^ 50)) = 6333186895054165 / 2 ^ 47"
    unfolding binary64_def
    by (subst round_float_near [where e = 5 and m = 6333186895054165 and k = "- 47"]) simp_all
  have c: "binary64 (45 / (6333186895054165 / 2 ^ 47)) = 2251799842462349 / 2 ^ 51"
    unfolding binary64_def
    by (subst round_float_near [where e = 0 and m = 4503599684924698 and k = "- 52"]) simp_all
  have c2: "binary64 (2251799842462349 / 2 ^ 51 * (2251799842462349 / 2 ^ 51)) = 4503599742478901 / 2 ^ 52"
    unfolding binary64_def
    by (subst round_float_near [where e = 0 and m = 4503599742478901 and k = "- 52"]) simp_all
  have x: "binary64 (1 - 4503599742478901 / 2 ^ 52) = - (115108405 / 2 ^ 52)"
    unfolding binary64_def
    by (subst round_float_near [where e = "- 26" and m = "- 7724794296401920" and k = "- 78"]) simp_all
  have neg: "(- (115108405 / 2 ^ 52) :: real) < 0" by simp
  show ?thesis
    using sine_error_ieee_steps [of "smul 3 (replicate 15 1 @ replicate 35 0)" "1522919 / 2 ^ 17" "replicate 15 1 @ replicate 35 0" "4360591588697965 / 2 ^ 50" "45" "6333186895054165 / 2 ^ 47" "2251799842462349 / 2 ^ 51" "4503599742478901 / 2 ^ 52" "- (115108405 / 2 ^ 52)",
        unfolded nr ns dt, OF n1 n2 sp d _ c c2 x] neg
    by simp
qed

subsection \<open>The claims about the sine error\<close>

text \<open>
  C5 (amended). In every arithmetic the sine error is either \<open>nan\<close> or a number between 0
  and 1, whatever the two vectors are. In exact arithmetic it is a number between 0 and 1
  for every recovered vector and signal vector of one shape that are both nonzero.
\<close>

theorem sine_error_nan_or_bounded:
  assumes "valid_arith A"
  shows "(sine_error A recovered sv = None
            \<or> (\<exists>e. sine_error A recovered sv = Some e \<and> 0 \<le> e \<and> e \<le> 1))
         \<and> (length recovered = length sv \<and> (\<exists>x\<in>set recovered. x \<noteq> 0) \<and> (\<exists>x\<in>set sv. x \<noteq> 0)
              \<longrightarrow> (\<exists>e. sine_error exact_arith recovered sv = Some e \<and> 0 \<le> e \<and> e \<le> 1))"
proof (intro conjI impI)
  show "sine_error A recovered sv = None
          \<or> (\<exists>e. sine_error A recovered sv = Some e \<and> 0 \<le> e \<and> e \<le> 1)"
    using sine_error_range [OF assms] by (cases "sine_error A recovered sv") auto
next
  assume "length recovered = length sv \<and> (\<exists>x\<in>set recovered. x \<noteq> 0) \<and> (\<exists>x\<in>set sv. x \<noteq> 0)"
  then show "\<exists>e. sine_error exact_arith recovered sv = Some e \<and> 0 \<le> e \<and> e \<le> 1"
    by (intro sine_error_exact_interval) (simp_all add: torch_norm_zero_iff)
qed

theorem sine_error_nan_or_bounded_witness:
  "valid_arith exact_arith \<and> valid_arith ieee_arith
   \<and> length [3, 4 :: real] = length [1, 0 :: real]
   \<and> (\<exists>x\<in>set [3, 4 :: real]. x \<noteq> 0) \<and> (\<exists>x\<in>set [1, 0 :: real]. x \<noteq> 0)
   \<and> sine_error exact_arith [3, 4] [1, 0] = Some (4 / 5)
   \<and> (\<exists>e. sine_error exact_arith [3, 4] [1, 0] = Some e \<and> 0 \<le> e \<and> e \<le> 1)
   \<and> (\<exists>e. sine_error ieee_arith (replicate 15 1 @ replicate 35 0) (replicate 15 1 @ replicate 35 0) = Some e
          \<and> 0 \<le> e \<and> e \<le> 1)
   \<and> sine_error ieee_arith [1, 1] [1, 1] = None"
  using sine_error_nan_or_bounded [OF valid_exact_arith, of "[3, 4]" "[1, 0]"]
    sine_error_nan_or_bounded [OF valid_ieee_arith, of "replicate 15 1 @ replicate 35 0" "replicate 15 1 @ replicate 35 0"]
    valid_exact_arith valid_ieee_arith sine_error_example sine_error_ieee_signal
    sine_error_ieee_parallel
  by simp

text \<open>
  The claim as written fails in the arithmetic of the notebook: for the recovered vector
  \<open>[1, 1]\<close> and the signal vector \<open>[1, 1]\<close> the norm of \<open>recovered\<close>, rounded to \<open>float32\<close>,
  is below the square root of 2, the cosine comes out as 1.0000000171, and the sine error
  is \<open>nan\<close>.
\<close>

theorem sine_error_parallel_counterexample:
  "length [1, 1 :: real] = length [1, 1 :: real] \<and> (\<exists>x\<in>set [1, 1 :: real]. x \<noteq> 0)
   \<and> sine_error ieee_arith [1, 1] [1, 1] = None"
  using sine_error_ieee_parallel by simp

text \<open>
  C6. For a recovered vector of zero norm (all entries zero, any length) the denominator
  \<open>torch.norm(recovered) * torch.norm(sparse_vector)\<close> is zero; no test stands before the
  division, so the cosine and with it the sine error are undefined. This is so in exact
  and in IEEE arithmetic (and, by \<open>sine_error_zero_vector\<close>, in every arithmetic in which
  the norm of a zero vector is 0).
\<close>

theorem sine_error_zero_norm_undefined:
  "torch_norm (replicate k 0) = 0
   \<and> cosine_denominator exact_arith (replicate k 0) sv = 0
   \<and> cosine_error exact_arith (replicate k 0) sv = None
   \<and> sine_error exact_arith (replicate k 0) sv = None
   \<and> cosine_denominator ieee_arith (replicate k 0) sv = 0
   \<and> cosine_error ieee_arith (replicate k 0) sv = None
   \<and> sine_error ieee_arith (replicate k 0) sv = None"
proof -
  have "torch_norm (replicate k 0) = 0"
    by (simp add: torch_norm_zero_iff)
  then show ?thesis
    using sine_error_zero_vector(2-4) [OF valid_exact_arith, of k sv]
      sine_error_ieee_zero_vector [of k sv]
    by simp
qed

text \<open>
  C7 (amended). The sine error does not change when the recovered vector is negated, in
  every arithmetic. It does not change under scaling by any nonzero \<open>c\<close> in exact
  arithmetic, where it is defined for nonzero vectors of one shape.
\<close>

theorem sine_error_sign_invariant:
  assumes "valid_arith A"
  shows "sine_error A (smul (- 1) recovered) sv = sine_error A recovered sv
         \<and> (c \<noteq> 0 \<longrightarrow>
              sine_error exact_arith (smul c recovered) sv = sine_error exact_arith recovered sv)
         \<and> (length recovered = length sv \<and> (\<exists>x\<in>set recovered. x \<noteq> 0) \<and> (\<exists>x\<in>set sv. x \<noteq> 0)
              \<longrightarrow> sine_error exact_arith recovered sv \<noteq> None)"
proof (intro conjI impI)
  show "sine_error A (smul (- 1) recovered) sv = sine_error A recovered sv"
    using sine_error_uminus [OF assms] by (simp add: smul_minus_one)
next
  assume "c \<noteq> 0"
  then show "sine_error exact_arith (smul c recovered) sv = sine_error exact_arith recovered sv"
    by (rule sine_error_smul)
next
  assume "length recovered = length sv \<and> (\<exists>x\<in>set recovered. x \<noteq> 0) \<and> (\<exists>x\<in>set sv. x \<noteq> 0)"
  then have "\<exists>e. sine_error exact_arith recovered sv = Some e \<and> 0 \<le> e \<and> e \<le> 1"
    by (intro sine_error_exact_interval) (simp_all add: torch_norm_zero_iff)
  then show "sine_error exact_arith recovered sv \<noteq> None" by auto
qed

theorem sine_error_sign_invariant_witness:
  "valid_arith exact_arith \<and> valid_arith ieee_arith \<and> (- 2 :: real) \<noteq> 0
   \<and> length [3, 4 :: real] = length [1, 0 :: real]
   \<and> (\<exists>x\<in>set [3, 4 :: real]. x \<noteq> 0) \<and> (\<exists>x\<in>set [1, 0 :: real]. x \<noteq> 0)
   \<and> sine_error exact_arith (smul (- 1) [3, 4]) [1, 0] = Some (4 / 5)
   \<and> sine_error exact_arith (smul (- 2) [3, 4]) [1, 0] = Some (4 / 5)
   \<and> sine_error exact_arith [3, 4] [1, 0] = Some (4 / 5)
   \<and> sine_error ieee_arith (smul (- 1) (replicate 15 1 @ replicate 35 0)) (replicate 15 1 @ replicate 35 0)
       = Some (8771035134354901 / 2 ^ 65)"
  using sine_error_sign_invariant [OF valid_exact_arith, of "[3, 4]" "[1, 0]" "- 2"]
    sine_error_sign_invariant [OF valid_ieee_arith, of "replicate 15 1 @ replicate 35 0" "replicate 15 1 @ replicate 35 0" 1]
    valid_exact_arith valid_ieee_arith sine_error_example sine_error_ieee_signal
  by simp

text \<open>
  The claim as written fails in the arithmetic of the notebook: for the signal vector of
  the scenario as the recovered vector the sine error is a number (about 0.00024), for
  three times that vector it is \<open>nan\<close>.
\<close>

theorem sine_error_scale_counterexample:
  "(3::real) \<noteq> 0 \<and> (\<exists>x\<in>set (replicate 15 1 @ replicate 35 0 :: real list). x \<noteq> 0)
   \<and> sine_error ieee_arith (replicate 15 1 @ replicate 35 0) (replicate 15 1 @ replicate 35 0)
       = Some (8771035134354901 / 2 ^ 65)
   \<and> sine_error ieee_arith (smul 3 (replicate 15 1 @ replicate 35 0)) (replicate 15 1 @ replicate 35 0) = None"
  using sine_error_ieee_signal sine_error_ieee_signal_scaled by simp

section \<open>Properties of the renormalization\<close>

lemma vmul_vdiv: "vmul (vdiv u c) (vdiv v c) = smul (1 / (c * c)) (vmul u v)"
proof (induction u arbitrary: v)
  case Nil
  then show ?case by (simp add: vmul_def vdiv_def smul_def)
next
  case (Cons x u)
  then show ?case by (cases v) (simp_all add: vmul_def vdiv_def smul_def)
qed

lemma renormalize_None_iff: "renormalize u v = None \<longleftrightarrow> torch_norm (vmul u v) = 0"
  by (simp add: renormalize_def Let_def)

lemma renormalize_Some_norm:
  assumes "renormalize u v = Some (u', v')"
  shows "torch_norm (vmul u' v') = 1"
proof -
  let ?n = "torch_norm (vmul u v)"
  have n: "?n \<noteq> 0" using assms by (auto simp: renormalize_def Let_def split: if_splits)
  then have pos: "0 < ?n" using torch_norm_nonneg [of "vmul u v"] by simp
  have eq: "u' = vdiv u (sqrt ?n)" "v' = vdiv v (sqrt ?n)"
    using assms n by (auto simp: renormalize_def Let_def split: if_splits)
  have "sqrt ?n * sqrt ?n = ?n" using pos by simp
  then have "vmul u' v' = smul (1 / ?n) (vmul u v)"
    unfolding eq by (simp only: vmul_vdiv)
  then have "torch_norm (vmul u' v') = \<bar>1 / ?n\<bar> * ?n"
    by (simp only: torch_norm_smul)
  then show ?thesis using pos by simp
qed

lemma renormalize_defined:
  "torch_norm (vmul u v) \<noteq> 0 \<Longrightarrow> \<exists>u' v'. renormalize u v = Some (u', v')"
  by (simp add: renormalize_def Let_def)

lemma uv_hadamard_iteration:
  "uv (hadamard_iteration A S sv step_size i s)
     = (case uv s of None \<Rightarrow> None | Some (u, v) \<Rightarrow> hadamard_update S step_size u v)"
  by (simp add: hadamard_iteration_def Let_def)

lemma uv_fold_unit_norm:
  assumes "\<And>u v. uv s0 = Some (u, v) \<Longrightarrow> torch_norm (vmul u v) = 1"
  shows "uv (fold (hadamard_iteration A S sv step_size) [0..<k] s0) = Some (u, v)
           \<Longrightarrow> torch_norm (vmul u v) = 1"
proof (induction k arbitrary: u v)
  case 0
  then show ?case using assms by simp
next
  case (Suc k)
  then show ?case
    by (auto simp: uv_hadamard_iteration hadamard_update_def
        split: option.splits prod.splits dest: renormalize_Some_norm)
qed

lemma uv_hadamard_train:
  "uv (hadamard_train A S sv step_size epochs u0 v0)
     = uv (fold (hadamard_iteration A S sv step_size) [0..<epochs]
         \<lparr>uv = hadamard_init u0 v0,
          sine_errors_h = [fst (hadamard_metrics A sv (hadamard_init u0 v0))],
          l1_h = [snd (hadamard_metrics A sv (hadamard_init u0 v0))],
          printed_h = []\<rparr>)"
  by (simp add: hadamard_train_def Let_def)

lemma hadamard_train_unit_norm:
  assumes "uv (hadamard_train A S sv step_size epochs u0 v0) = Some (u, v)"
  shows "torch_norm (vmul u v) = 1"
proof (rule uv_fold_unit_norm)
  show "uv (fold (hadamard_iteration A S sv step_size) [0..<epochs]
         \<lparr>uv = hadamard_init u0 v0,
          sine_errors_h = [fst (hadamard_metrics A sv (hadamard_init u0 v0))],
          l1_h = [snd (hadamard_metrics A sv (hadamard_init u0 v0))],
          printed_h = []\<rparr>) = Some (u, v)"
    using assms by (simp only: uv_hadamard_train)
next
  fix u v
  assume "uv \<lparr>uv = hadamard_init u0 v0,
          sine_errors_h = [fst (hadamard_metrics A sv (hadamard_init u0 v0))],
          l1_h = [snd (hadamard_metrics A sv (hadamard_init u0 v0))],
          printed_h = []\<rparr> = Some (u, v)"
  then show "torch_norm (vmul u v) = 1"
    by (simp add: hadamard_init_def renormalize_Some_norm)
qed

text \<open>
  C2 (amended). Whenever the product \<open>u * v\<close> going into a renormalization is not the zero
  vector, the renormalization (the one of the first cell and the one after each ascent
  step) returns \<open>u\<close>, \<open>v\<close> with \<open>torch.norm(u * v) = 1\<close>; and whenever the state after any
  number of rounds of the loop is defined, its product has norm 1.
\<close>

theorem hadamard_unit_norm:
  "(torch_norm (vmul u0 v0) \<noteq> 0 \<longrightarrow>
      (\<exists>u1 v1. hadamard_init u0 v0 = Some (u1, v1) \<and> torch_norm (vmul u1 v1) = 1))
   \<and> (torch_norm (vmul (fst (ascent S step_size u v)) (snd (ascent S step_size u v))) \<noteq> 0 \<longrightarrow>
      (\<exists>u' v'. hadamard_update S step_size u v = Some (u', v') \<and> torch_norm (vmul u' v') = 1))
   \<and> (\<forall>a b. uv (hadamard_train A S sv step_size epochs u0 v0) = Some (a, b) \<longrightarrow>
         torch_norm (vmul a b) = 1)"
proof (intro conjI impI allI)
  assume "torch_norm (vmul u0 v0) \<noteq> 0"
  then obtain u1 v1 where "renormalize u0 v0 = Some (u1, v1)"
    using renormalize_defined by blast
  then show "\<exists>u1 v1. hadamard_init u0 v0 = Some (u1, v1) \<and> torch_norm (vmul u1 v1) = 1"
    using renormalize_Some_norm by (auto simp: hadamard_init_def)
next
  assume "torch_norm (vmul (fst (ascent S step_size u v)) (snd (ascent S step_size u v))) \<noteq> 0"
  then obtain u' v' where
    "renormalize (fst (ascent S step_size u v)) (snd (ascent S step_size u v)) = Some (u', v')"
    using renormalize_defined by blast
  then show "\<exists>u' v'. hadamard_update S step_size u v = Some (u', v') \<and> torch_norm (vmul u' v') = 1"
    using renormalize_Some_norm by (auto simp: hadamard_update_def split: prod.splits)
next
  fix a b
  assume "uv (hadamard_train A S sv step_size epochs u0 v0) = Some (a, b)"
  then show "torch_norm (vmul a b) = 1" by (rule hadamard_train_unit_norm)
qed

lemma sqrt16: "sqrt 16 = 4"
  using real_sqrt_abs [of 4] by simp

lemma sqrt9: "sqrt 9 = 3"
  using real_sqrt_abs [of 3] by simp

lemma init_example: "hadamard_init [2] [8] = Some ([1 / 2], [2])"
  by (simp add: hadamard_init_def renormalize_def torch_norm_def vmul_def vdiv_def sqrt16)

lemma update_example: "hadamard_update [[1]] 1 [1] [1] = Some ([1], [1])"
  by (simp add: hadamard_update_def ascent_def renormalize_def torch_norm_def vmul_def vdiv_def
      vadd_def vscale_def matvec_def madd_def transpose_T_def dot_def sqrt9)

theorem hadamard_unit_norm_witness:
  "torch_norm (vmul [2] [8]) \<noteq> 0
   \<and> hadamard_init [2] [8] = Some ([1 / 2], [2]) \<and> torch_norm (vmul [1 / 2] [2]) = 1
   \<and> torch_norm (vmul (fst (ascent [[1]] 1 [1] [1])) (snd (ascent [[1]] 1 [1] [1]))) \<noteq> 0
   \<and> hadamard_update [[1]] 1 [1] [1] = Some ([1], [1]) \<and> torch_norm (vmul [1] [1]) = 1
   \<and> uv (hadamard_train exact_arith [[1]] [1] 1 2 [1] [1]) = Some ([1], [1])"
proof -
  have a: "torch_norm (vmul [2] [8]) \<noteq> 0"
    by (simp add: torch_norm_def vmul_def)
  have b: "torch_norm (vmul (fst (ascent [[1]] 1 [1] [1])) (snd (ascent [[1]] 1 [1] [1]))) \<noteq> 0"
    by (simp add: ascent_def torch_norm_def vmul_def vadd_def vscale_def matvec_def madd_def
        transpose_T_def dot_def)
  have i: "hadamard_init [1] [1] = Some ([1], [1])"
    by (simp add: hadamard_init_def renormalize_def torch_norm_def vmul_def vdiv_def)
  have c: "uv (hadamard_train exact_arith [[1]] [1] 1 2 [1] [1]) = Some ([1], [1])"
    by (simp add: uv_hadamard_train uv_hadamard_iteration i update_example numeral_2_eq_2)
  show ?thesis
    using hadamard_unit_norm [of "[2]" "[8]" "[[1]]" 1 "[1]" "[1]" exact_arith "[1]" 2]
      hadamard_unit_norm [of "[1]" "[1]" "[[1]]" 1 "[1]" "[1]" exact_arith "[1]" 2] a b c
    by (simp add: init_example update_example)
qed

text \<open>
  Without the condition the statement fails: for \<open>u = [0]\<close>, \<open>v = [1]\<close> the norm of the
  product is 0, the division is by zero, and no vector of norm 1 comes out.
\<close>

theorem hadamard_zero_product_counterexample:
  "torch_norm (vmul [0] [1]) = 0 \<and> hadamard_init [0] [1] = None"
  by (simp add: hadamard_init_def renormalize_def torch_norm_def vmul_def)

text \<open>
  C10. The divisor \<open>norm ** 0.5\<close> of the renormalization is zero exactly when \<open>u * v\<close> is
  the zero vector, and exactly then the renormalization, the first one and the one in the
  loop alike, has no defined result.
\<close>

theorem renormalize_unguarded:
  "(sqrt (torch_norm (vmul u v)) = 0 \<longleftrightarrow> (\<forall>x\<in>set (vmul u v). x = 0))
   \<and> (hadamard_init u v = None \<longleftrightarrow> sqrt (torch_norm (vmul u v)) = 0)
   \<and> (hadamard_update S step_size u v = None \<longleftrightarrow>
        sqrt (torch_norm (vmul (fst (ascent S step_size u v)) (snd (ascent S step_size u v)))) = 0)"
  by (simp add: torch_norm_zero_iff hadamard_init_def hadamard_update_def renormalize_def Let_def
      split: prod.splits)

theorem renormalize_unguarded_witness:
  "sqrt (torch_norm (vmul [0, 3] [5, 0])) = 0 \<and> vmul [0, 3] [5, 0] = [0, 0]
   \<and> hadamard_init [0, 3] [5, 0] = None
   \<and> hadamard_update [[0]] 1 [0] [1] = None"
proof -
  have "vmul [0, 3] [5, 0 :: real] = [0, 0]" by (simp add: vmul_def)
  moreover have "sqrt (torch_norm (vmul (fst (ascent [[0]] 1 [0] [1])) (snd (ascent [[0]] 1 [0] [1])))) = 0"
    by (simp add: ascent_def torch_norm_def vmul_def vadd_def vscale_def matvec_def madd_def
        transpose_T_def dot_def)
  ultimately show ?thesis
    using renormalize_unguarded [of "[0, 3]" "[5, 0]" "[[0]]" 1]
      renormalize_unguarded [of "[0]" "[1]" "[[0]]" 1]
    by simp
qed

section \<open>Properties of the loops\<close>










section \<open>The gradients are exact\<close>





























lemma length_vsub [simp]: "length (vsub a b) = min (length a) (length b)"
  by (simp add: vsub_def)

lemma nth_vsub [simp]: "i < length a \<Longrightarrow> i < length b \<Longrightarrow> vsub a b ! i = a ! i - b ! i"
  by (simp add: vsub_def)

lemma length_smul [simp]: "length (smul c a) = length a"
  by (simp add: smul_def)

lemma nth_smul [simp]: "i < length a \<Longrightarrow> smul c a ! i = c * a ! i"
  by (simp add: smul_def)






lemma length_matvec [simp]: "length (matvec X x) = length X"
  by (simp add: matvec_def)







lemma length_vscale [simp]: "length (vscale g c) = length g"
  by (simp add: vscale_def)











end
